theory Spec2Isabelle
  imports Main "HOL-Library.Sublist"
begin

section \<open>Strings and regular expressions as the modem code uses them\<close>

text \<open>
  The module \<^verbatim>\<open>gsmmodem/modem.py\<close> is Python 2: a line is a byte string, here a
  \<^typ>\<open>string\<close>. The five class-level patterns are compiled with \<^verbatim>\<open>re.compile\<close> and
  applied with \<^verbatim>\<open>.match\<close>, which anchors at the start of the line and explores the
  alternatives of the pattern in priority order (greedy quantifiers first, backtracking
  on failure). The matcher below returns every way a pattern matches a prefix of the
  input, best first, as the list of captured groups and the unread rest; the first
  element is the match Python reports. Every quantifier in the five patterns stands on a
  single character class, so \<open>Star\<close>, \<open>Plus\<close> and \<open>Opt\<close> take a class.
\<close>

datatype re =
    Eps
  | Sym "char \<Rightarrow> bool"
  | Seq re re
  | Alt re re
  | Star "char \<Rightarrow> bool"
  | Plus "char \<Rightarrow> bool"
  | Opt "char \<Rightarrow> bool"
  | Group nat re
  | Eos

type_synonym captures = "(nat \<times> string) list"

text \<open>The rests a greedy \<^verbatim>\<open>p*\<close> leaves, the longest run first.\<close>

fun star :: "(char \<Rightarrow> bool) \<Rightarrow> string \<Rightarrow> string list" where
  "star p [] = [[]]"
| "star p (c # cs) = (if p c then star p cs @ [c # cs] else [c # cs])"

fun plus_rests :: "(char \<Rightarrow> bool) \<Rightarrow> string \<Rightarrow> string list" where
  "plus_rests p [] = []"
| "plus_rests p (c # cs) = (if p c then star p cs else [])"

text \<open>
  \<open>Eos\<close> is \<^verbatim>\<open>$\<close> without the MULTILINE flag: the end of the string, or the place just
  before a newline that ends the string.
\<close>

fun rmatch :: "re \<Rightarrow> string \<Rightarrow> (captures \<times> string) list" where
  "rmatch Eps s = [([], s)]"
| "rmatch (Sym p) s = (case s of [] \<Rightarrow> [] | c # cs \<Rightarrow> if p c then [([], cs)] else [])"
| "rmatch (Seq a b) s =
     concat (map (\<lambda>(g1, r1). map (\<lambda>(g2, r2). (g1 @ g2, r2)) (rmatch b r1)) (rmatch a s))"
| "rmatch (Alt a b) s = rmatch a s @ rmatch b s"
| "rmatch (Star p) s = map (\<lambda>r. ([], r)) (star p s)"
| "rmatch (Plus p) s = map (\<lambda>r. ([], r)) (plus_rests p s)"
| "rmatch (Opt p) s =
     (case s of [] \<Rightarrow> [([], s)] | c # cs \<Rightarrow> if p c then [([], cs), ([], s)] else [([], s)])"
| "rmatch (Group k a) s =
     map (\<lambda>(g, r). ((k, take (length s - length r) s) # g, r)) (rmatch a s)"
| "rmatch Eos s = (if s = [] \<or> s = [CHR 0x0A] then [([], s)] else [])"

text \<open>
  \<^verbatim>\<open>pattern.match(line)\<close>: \<open>None\<close> when nothing matches, else the groups of the
  first match; \<open>group g k\<close> is \<open>None\<close> for a group that took no part in the match, as
  \<^verbatim>\<open>m.group(k)\<close> is.
\<close>

definition re_match :: "re \<Rightarrow> string \<Rightarrow> captures option" where
  "re_match r s = (case rmatch r s of [] \<Rightarrow> None | (g, _) # _ \<Rightarrow> Some g)"

definition group :: "captures \<Rightarrow> nat \<Rightarrow> string option" where
  "group g k = map_of g k"

definition seqs :: "re list \<Rightarrow> re" where
  "seqs rs = foldr Seq rs Eps"

definition lit :: "string \<Rightarrow> re" where
  "lit w = seqs (map (\<lambda>c. Sym (\<lambda>d. d = c)) w)"

text \<open>The classes: \<^verbatim>\<open>\d\<close>, \<^verbatim>\<open>\s\<close> (space, \t, \n, \r, \f, \v), \<^verbatim>\<open>.\<close>, and the negated sets.\<close>

definition digit :: "char \<Rightarrow> bool" where
  "digit c = (c \<in> set ''0123456789'')"

definition space :: "char \<Rightarrow> bool" where
  "space c = (c \<in> set [CHR 0x20, CHR 0x09, CHR 0x0A, CHR 0x0D, CHR 0x0C, CHR 0x0B])"

definition dot :: "char \<Rightarrow> bool" where
  "dot c = (c \<noteq> CHR 0x0A)"

definition not_comma :: "char \<Rightarrow> bool" where
  "not_comma c = (c \<noteq> CHR '','')"

definition not_quote :: "char \<Rightarrow> bool" where
  "not_quote c = (c \<noteq> CHR 0x22)"

text \<open>\<^verbatim>\<open>CM_ERROR_REGEX = re.compile(r'^\+(CM[ES]) ERROR: (\d+)$')\<close>\<close>

definition CM_ERROR_REGEX :: re where
  "CM_ERROR_REGEX =
     seqs [lit ''+'', Group 1 (seqs [lit ''CM'', Sym (\<lambda>c. c \<in> set ''ES'')]),
           lit '' ERROR: '', Group 2 (Plus digit), Eos]"

text \<open>\<^verbatim>\<open>CSQ_REGEX = re.compile(r'^\+CSQ:\s*(\d+),')\<close>\<close>

definition CSQ_REGEX :: re where
  "CSQ_REGEX = seqs [lit ''+CSQ:'', Star space, Group 1 (Plus digit), lit '','']"

text \<open>
  \<^verbatim>\<open>CLIP_REGEX = re.compile(r'^\+CLIP:\s*"(\+{0,1}\d+)",\d+,[^,]*,[^,]*,("([^"]+)"|,.*)$')\<close>
\<close>

definition CLIP_REGEX :: re where
  "CLIP_REGEX =
     seqs [lit ''+CLIP:'', Star space, lit ''\"'',
           Group 1 (seqs [Opt (\<lambda>c. c = CHR ''+''), Plus digit]),
           lit ''\"'', lit '','', Plus digit, lit '','',
           Star not_comma, lit '','', Star not_comma, lit '','',
           Group 2 (Alt (seqs [lit ''\"'', Group 3 (Plus not_quote), lit ''\"''])
                        (seqs [lit '','', Star dot])),
           Eos]"

text \<open>\<^verbatim>\<open>CMTI_REGEX = re.compile(r'^\+CMTI:\s*([^,]+),(\d+)$')\<close>\<close>

definition CMTI_REGEX :: re where
  "CMTI_REGEX =
     seqs [lit ''+CMTI:'', Star space, Group 1 (Plus not_comma), lit '','',
           Group 2 (Plus digit), Eos]"

text \<open>
  \<^verbatim>\<open>CMGR_SM_DELIVER_REGEX = re.compile(r'^\+CMGR:\s*"([^"]+)","([^"]+)",[^,]*,"([^"]+)"$')\<close>
\<close>

definition CMGR_SM_DELIVER_REGEX :: re where
  "CMGR_SM_DELIVER_REGEX =
     seqs [lit ''+CMGR:'', Star space, lit ''\"'', Group 1 (Plus not_quote),
           lit ''\"'', lit '','', lit ''\"'', Group 2 (Plus not_quote),
           lit ''\"'', lit '','', Star not_comma, lit '','', lit ''\"'',
           Group 3 (Plus not_quote), lit ''\"'', Eos]"

text \<open>\<^verbatim>\<open>int(s)\<close> on a string of decimal digits (what \<^verbatim>\<open>(\d+)\<close> captures).\<close>

definition py_int :: "string \<Rightarrow> int" where
  "py_int s = foldl (\<lambda>n c. 10 * n + (int (of_char c) - 48)) 0 s"

text \<open>\<^verbatim>\<open>w in s\<close> on strings: \<open>w\<close> occurs in \<open>s\<close> as a contiguous piece.\<close>

fun contains :: "string \<Rightarrow> string \<Rightarrow> bool" where
  "contains w [] = (w = [])"
| "contains w (c # cs) = (prefix w (c # cs) \<or> contains w cs)"

text \<open>\<^verbatim>\<open>sep.join(xs)\<close>\<close>

fun join :: "string \<Rightarrow> string list \<Rightarrow> string" where
  "join sep [] = []"
| "join sep [x] = x"
| "join sep (x # y # ys) = x @ sep @ join sep (y # ys)"

text \<open>\<^verbatim>\<open>s.split(' ', 1)[1]\<close>: what follows the first blank; IndexError when there is none.\<close>

datatype error =
    CommandError "string option" "int option"
  | TimeoutException
  | InvalidStateException
  | IndexError
  | TypeError
  | AttributeError

definition after_first_blank :: "string \<Rightarrow> error + string" where
  "after_first_blank s =
     (case dropWhile (\<lambda>c. c \<noteq> CHR '' '') s of [] \<Rightarrow> Inl IndexError | _ # t \<Rightarrow> Inr t)"

text \<open>\<^verbatim>\<open>'{}'.format(x)\<close> for \<open>x\<close> a string or \<^verbatim>\<open>None\<close>.\<close>

definition format_str :: "string option \<Rightarrow> string" where
  "format_str x = (case x of None \<Rightarrow> ''None'' | Some s \<Rightarrow> s)"

section \<open>The objects\<close>

text \<open>
  \<^verbatim>\<open>class IncomingCall\<close>: the attributes \<^verbatim>\<open>__init__\<close> binds. An attribute that can hold
  \<^verbatim>\<open>None\<close> is an option. The back reference \<^verbatim>\<open>_gsmModem\<close> is the modem the methods are
  given as an argument.
\<close>

record IncomingCall =
  number :: "string option"
  ton :: "int option"
  callerName :: "string option"
  type :: "string option"
  ringing :: bool
  answered :: bool
  ringCount :: int

text \<open>\<^verbatim>\<open>class Sms\<close> and \<^verbatim>\<open>class ReceivedSms(Sms)\<close>.\<close>

record Sms =
  number_sms :: "string option"
  text_sms :: string

record ReceivedSms = Sms +
  status_sms :: "string option"
  time_sms :: "string option"

text \<open>
  What an execution does to the world outside the object is kept as a trace, in order:
  the data handed to the serial transport, the calls of the two user callbacks, and the
  calls of the logger (level and format string). The debugging \<^verbatim>\<open>print\<close> statements
  write to standard output and are left out.
\<close>

datatype level = Debug | Info | Warn

datatype event =
    Sent string
  | IncomingCallCallback IncomingCall
  | SmsReceivedCallback ReceivedSms
  | Logged level string

text \<open>
  What the transport gives back for one command: the response lines, or nothing within
  the timeout.
\<close>

datatype reply = Lines "string list" | Silence

text \<open>
  \<^verbatim>\<open>class GsmModem(SerialComms)\<close>: the two capability flags and the registry
  \<^verbatim>\<open>activeCalls\<close>, as \<^verbatim>\<open>__init__\<close> binds them (the registry is keyed by the caller
  number, which may be \<^verbatim>\<open>None\<close>), together with the transport's side: the replies the
  modem is going to give, in order, and the trace so far.
\<close>

record GsmModem =
  callingLineIdentification :: bool
  extendedIncomingCallIndication :: bool
  activeCalls :: "string option \<rightharpoonup> IncomingCall"
  replies :: "reply list"
  trace :: "event list"

text \<open>
  \<^verbatim>\<open>GsmModem.__init__\<close>, called with both callbacks: both flags off, no call. (Without a
  callback the constructor reads \<^verbatim>\<open>self._placeholderCallback\<close>, which the class does
  not define: the method is spelled \<^verbatim>\<open>_placeHolderCallback\<close>.)
\<close>

definition init_GsmModem :: "reply list \<Rightarrow> GsmModem" where
  "init_GsmModem rs =
     \<lparr>callingLineIdentification = False, extendedIncomingCallIndication = False,
      activeCalls = Map.empty, replies = rs, trace = []\<rparr>"

definition emit :: "event \<Rightarrow> GsmModem \<Rightarrow> GsmModem" where
  "emit e m = m\<lparr>trace := trace m @ [e]\<rparr>"

section \<open>The command channel\<close>

text \<open>
  Modelled from the spec: \<^verbatim>\<open>SerialComms.write\<close> (\<^verbatim>\<open>serial_comms.py\<close> is not among the
  sources). The transport offers "send raw line, get lines back": the data are handed
  over; when a response is awaited the next reply of the modem is returned, and no
  reply within the timeout is a \<^verbatim>\<open>TimeoutException\<close>; when none is awaited the result
  is \<^verbatim>\<open>None\<close>.
\<close>

definition write_SerialComms ::
    "string \<Rightarrow> bool \<Rightarrow> GsmModem \<Rightarrow> (error + string list option) \<times> GsmModem" where
  "write_SerialComms data waitForResponse m =
     (let m1 = emit (Sent data) m in
      if waitForResponse then
        (case replies m1 of
           [] \<Rightarrow> (Inl TimeoutException, m1)
         | Silence # rs \<Rightarrow> (Inl TimeoutException, m1\<lparr>replies := rs\<rparr>)
         | Lines ls # rs \<Rightarrow> (Inr (Some ls), m1\<lparr>replies := rs\<rparr>))
      else (Inr None, m1))"

text \<open>
  \<^verbatim>\<open>GsmModem.write(data, waitForResponse, timeout, parseError, writeTerm)\<close>.
  \<^verbatim>\<open>responseLines[-1]\<close> raises IndexError on an empty list and TypeError on \<^verbatim>\<open>None\<close>.
\<close>

definition write_GsmModem ::
    "string \<Rightarrow> bool \<Rightarrow> bool \<Rightarrow> string \<Rightarrow> GsmModem
       \<Rightarrow> (error + string list option) \<times> GsmModem" where
  "write_GsmModem data waitForResponse parseError writeTerm m =
     (case write_SerialComms (data @ writeTerm) waitForResponse m of
        (Inl e, m1) \<Rightarrow> (Inl e, m1)
      | (Inr responseLines, m1) \<Rightarrow>
          if waitForResponse then
            (case responseLines of
               None \<Rightarrow> (Inl TypeError, m1)
             | Some [] \<Rightarrow> (Inl IndexError, m1)
             | Some (l # ls) \<Rightarrow>
                 (let cmdStatusLine = last (l # ls) in
                  if parseError \<and> contains ''ERROR'' cmdStatusLine then
                    (case re_match CM_ERROR_REGEX cmdStatusLine of
                       Some g \<Rightarrow>
                         (Inl (CommandError (group g 1) (map_option py_int (group g 2))), m1)
                     | None \<Rightarrow> (Inl (CommandError None None), m1))
                  else (Inr responseLines, m1)))
          else (Inr None, m1))"

text \<open>The call with the defaults, \<^verbatim>\<open>self.write(data)\<close>: the terminator is \<^verbatim>\<open>'\r'\<close>.\<close>

definition command :: "string \<Rightarrow> GsmModem \<Rightarrow> (error + string list option) \<times> GsmModem" where
  "command data m = write_GsmModem data True True [CHR 0x0D] m"

text \<open>\<^verbatim>\<open>signalStrength\<close> (a property): \<^verbatim>\<open>self.write('AT+CSQ')[0]\<close> against \<^verbatim>\<open>CSQ_REGEX\<close>.\<close>

definition signalStrength :: "GsmModem \<Rightarrow> (error + int) \<times> GsmModem" where
  "signalStrength m =
     (case command ''AT+CSQ'' m of
        (Inl e, m1) \<Rightarrow> (Inl e, m1)
      | (Inr None, m1) \<Rightarrow> (Inl TypeError, m1)
      | (Inr (Some []), m1) \<Rightarrow> (Inl IndexError, m1)
      | (Inr (Some (l # ls)), m1) \<Rightarrow>
          (case re_match CSQ_REGEX l of
             Some g \<Rightarrow>
               (case group g 1 of
                  None \<Rightarrow> (Inl TypeError, m1)
                | Some d \<Rightarrow> (let ss = py_int d in (Inr (if ss \<noteq> 99 then ss else - 1), m1)))
           | None \<Rightarrow> (Inl (CommandError None None), m1)))"

text \<open>
  \<^verbatim>\<open>waitForNetworkCoverage(timeout)\<close>. The timer thread sets \<^verbatim>\<open>block[0]\<close> to False at a
  moment of its own, once; the loop reads the flag before each round. \<open>expiry\<close> is the
  number of rounds that still read True (\<open>None\<close>: no timeout was given, the flag stays
  True). A round that goes on has consumed a reply, so the loop ends with the replies.
\<close>

lemma signalStrength_consumes:
  "signalStrength m = (Inr ss, m1) \<Longrightarrow> length (replies m1) < length (replies m)"
  by (auto simp: signalStrength_def command_def write_GsmModem_def write_SerialComms_def
        emit_def Let_def split: list.splits reply.splits option.splits if_splits)

function waitForNetworkCoverage :: "nat option \<Rightarrow> GsmModem \<Rightarrow> (error + int) \<times> GsmModem" where
  "waitForNetworkCoverage expiry m =
     (if expiry = Some 0 then (Inl TimeoutException, m)
      else
        (case signalStrength m of
           (Inl e, m1) \<Rightarrow> (Inl e, m1)
         | (Inr ss, m1) \<Rightarrow>
             if ss \<noteq> 0 then (Inr ss, m1)
             else waitForNetworkCoverage (map_option (\<lambda>k. k - 1) expiry) m1))"
  by pat_completeness auto
termination
  by (relation "measure (\<lambda>(expiry, m). length (replies m))")
     (auto dest: signalStrength_consumes [OF sym])

text \<open>\<^verbatim>\<open>sendSms(destination, text)\<close>: one command, ended by \<^verbatim>\<open>chr(26)\<close>.\<close>

definition sendSms :: "string \<Rightarrow> string \<Rightarrow> GsmModem \<Rightarrow> (error + unit) \<times> GsmModem" where
  "sendSms destination body m =
     (case write_GsmModem (''AT+CMGS=\"'' @ destination @ ''\"'' @ [CHR 0x0D] @ body)
             True True [CHR 0x1A] m of
        (Inl e, m1) \<Rightarrow> (Inl e, m1)
      | (Inr _, m1) \<Rightarrow> (Inr (), m1))"

section \<open>Connection bring-up\<close>

text \<open>Statements one after the other: the first exception ends the sequence.\<close>

fun in_order ::
    "(GsmModem \<Rightarrow> (error + 'a) \<times> GsmModem) list \<Rightarrow> GsmModem \<Rightarrow> (error + unit) \<times> GsmModem" where
  "in_order [] m = (Inr (), m)"
| "in_order (c # cs) m =
     (case c m of (Inl e, m1) \<Rightarrow> (Inl e, m1) | (Inr _, m1) \<Rightarrow> in_order cs m1)"

text \<open>
  The \<^verbatim>\<open>try ... except CommandError ... else ...\<close> of \<^verbatim>\<open>connect\<close>: only a CommandError is
  caught; the flag of the extended indication is touched only in the \<^verbatim>\<open>else\<close> branch.
\<close>

definition incomingCallSetup :: "GsmModem \<Rightarrow> (error + string list option) \<times> GsmModem" where
  "incomingCallSetup m =
     (case command ''AT+CLIP=1'' m of
        (Inl (CommandError k c), m1) \<Rightarrow>
          (Inr None,
           emit (Logged Warn
             ''Incoming call calling line identification (caller ID) not supported by modem. Error: {}'')
             (m1\<lparr>callingLineIdentification := False\<rparr>))
      | (Inl e, m1) \<Rightarrow> (Inl e, m1)
      | (Inr _, m1) \<Rightarrow>
          (case command ''AT+CRC=1'' (m1\<lparr>callingLineIdentification := True\<rparr>) of
             (Inl (CommandError k c), m2) \<Rightarrow>
               (Inr None,
                emit (Logged Info
                  ''Extended format incoming call indication not supported by modem. Error: {}'')
                  (m2\<lparr>extendedIncomingCallIndication := False\<rparr>))
           | (Inl e, m2) \<Rightarrow> (Inl e, m2)
           | (Inr _, m2) \<Rightarrow> (Inr None, m2\<lparr>extendedIncomingCallIndication := True\<rparr>)))"

text \<open>
  \<^verbatim>\<open>connect\<close>, after the transport's own \<^verbatim>\<open>connect\<close> has opened the port (which is
  outside this module).
\<close>

definition connect :: "GsmModem \<Rightarrow> (error + unit) \<times> GsmModem" where
  "connect m =
     in_order
       [\<lambda>m. (Inr None, emit (Logged Debug ''Connecting to modem on port {} at {}bps'') m),
        command ''ATZ'',
        command ''ATE0'',
        command ''AT+CFUN=1'',
        command ''AT+CMEE=1'',
        write_GsmModem ''AT+WIND=0'' True False [CHR 0x0D],
        command ''AT+CMGF=1'',
        command ''AT+CSMP=49,167'',
        command ''AT+CPMS=\"SM\",\"SM\",\"SR\"'',
        command ''AT+CNMI=2,1,0,2'',
        incomingCallSetup,
        command ''AT+CVHU=0''] m"

section \<open>Notifications\<close>

text \<open>
  The local variables of \<^verbatim>\<open>_handleIncomingCall\<close> after its parsing part (up to the
  \<^verbatim>\<open>if callerNumber in ...\<close> test). Where the caller-ID line matches, the code assigns
  \<^verbatim>\<open>callerNumber\<close> and \<^verbatim>\<open>callerName\<close> and leaves \<^verbatim>\<open>ton\<close> unbound.
\<close>

datatype 'a local = Unbound | Bound 'a

record ring_locals =
  callType_var :: "string option"
  callerNumber_var :: "string option"
  ton_var :: "int option local"
  callerName_var :: "string option"

definition handleIncomingCall_locals :: "string list \<Rightarrow> GsmModem \<Rightarrow> error + ring_locals" where
  "handleIncomingCall_locals lines m =
     (case lines of
        [] \<Rightarrow> Inl IndexError
      | ringLine # lines1 \<Rightarrow>
          (case (if extendedIncomingCallIndication m
                 then map_sum id Some (after_first_blank ringLine) else Inr None) of
             Inl e \<Rightarrow> Inl e
           | Inr callType \<Rightarrow>
               (case (if callingLineIdentification m then lines1 else []) of
                  clipLine # lines2 \<Rightarrow>
                    (case re_match CLIP_REGEX clipLine of
                       Some g \<Rightarrow>
                         Inr \<lparr>callType_var = callType, callerNumber_var = group g 1,
                              ton_var = Unbound,
                              callerName_var =
                                (case group g 3 of Some [] \<Rightarrow> None | name \<Rightarrow> name)\<rparr>
                     | None \<Rightarrow>
                         Inr \<lparr>callType_var = callType, callerNumber_var = None,
                              ton_var = Bound None, callerName_var = None\<rparr>)
                | [] \<Rightarrow>
                    Inr \<lparr>callType_var = callType, callerNumber_var = None,
                         ton_var = Bound None, callerName_var = None\<rparr>)))"

text \<open>
  \<^verbatim>\<open>_handleIncomingCall\<close>. After the parsing part the method evaluates
  \<^verbatim>\<open>callerNumber in self._activeCalls\<close>. The registry is bound to the attribute
  \<^verbatim>\<open>activeCalls\<close> (in \<^verbatim>\<open>__init__\<close>, and \<^verbatim>\<open>IncomingCall.hangup\<close> reads it under that
  name); no statement of the module binds \<^verbatim>\<open>_activeCalls\<close>, so the test raises
  AttributeError and the statements after it (the ring count, the new
  \<^verbatim>\<open>IncomingCall\<close>, the callback) are never reached.
\<close>

definition handleIncomingCall :: "string list \<Rightarrow> GsmModem \<Rightarrow> (error + unit) \<times> GsmModem" where
  "handleIncomingCall lines m =
     (case handleIncomingCall_locals lines m of
        Inl e \<Rightarrow> (Inl e, m)
      | Inr v \<Rightarrow> (Inl AttributeError, m))"

text \<open>\<^verbatim>\<open>_readStoredSmsMessage(msgIndex)\<close>; \<^verbatim>\<open>msgData[1:-1]\<close> is \<open>butlast (tl msgData)\<close>.\<close>

definition readStoredSmsMessage ::
    "string option \<Rightarrow> GsmModem \<Rightarrow> (error + ReceivedSms) \<times> GsmModem" where
  "readStoredSmsMessage msgIndex m =
     (case command (''AT+CMGR='' @ format_str msgIndex) m of
        (Inl e, m1) \<Rightarrow> (Inl e, m1)
      | (Inr None, m1) \<Rightarrow> (Inl TypeError, m1)
      | (Inr (Some []), m1) \<Rightarrow> (Inl IndexError, m1)
      | (Inr (Some (header # rest)), m1) \<Rightarrow>
          (case re_match CMGR_SM_DELIVER_REGEX header of
             None \<Rightarrow> (Inl (CommandError None None), m1)
           | Some g \<Rightarrow>
               (Inr \<lparr>number_sms = group g 2,
                     text_sms = join [CHR 0x0A] (butlast (tl (header # rest))),
                     status_sms = group g 1, time_sms = group g 3\<rparr>, m1)))"

definition deleteStoredMessage :: "string option \<Rightarrow> GsmModem \<Rightarrow> (error + unit) \<times> GsmModem" where
  "deleteStoredMessage msgIndex m =
     (case command (''AT+CMGD='' @ format_str msgIndex) m of
        (Inl e, m1) \<Rightarrow> (Inl e, m1)
      | (Inr _, m1) \<Rightarrow> (Inr (), m1))"

text \<open>\<^verbatim>\<open>_handleSmsReceived(notificationLine)\<close>: an \<^verbatim>\<open>if\<close> with no \<^verbatim>\<open>else\<close>.\<close>

definition handleSmsReceived :: "string \<Rightarrow> GsmModem \<Rightarrow> (error + unit) \<times> GsmModem" where
  "handleSmsReceived notificationLine m =
     (case re_match CMTI_REGEX notificationLine of
        Some g \<Rightarrow>
          (let msgIndex = group g 2 in
           case readStoredSmsMessage msgIndex m of
             (Inl e, m1) \<Rightarrow> (Inl e, m1)
           | (Inr sms, m1) \<Rightarrow>
               (case deleteStoredMessage msgIndex m1 of
                  (Inl e, m2) \<Rightarrow> (Inl e, m2)
                | (Inr _, m2) \<Rightarrow> (Inr (), emit (SmsReceivedCallback sms) m2)))
      | None \<Rightarrow> (Inr (), m))"

text \<open>
  \<^verbatim>\<open>__threadedHandleModemNotification(lines)\<close>, the body of the thread that
  \<^verbatim>\<open>_handleModemNotification\<close> starts for a group of unsolicited lines.
\<close>

definition threadedHandleModemNotification ::
    "string list \<Rightarrow> GsmModem \<Rightarrow> (error + unit) \<times> GsmModem" where
  "threadedHandleModemNotification lines m =
     (case lines of
        [] \<Rightarrow> (Inl IndexError, m)
      | firstLine # _ \<Rightarrow>
          if contains ''RING'' firstLine then handleIncomingCall lines m
          else if prefix ''+CMTI'' firstLine then handleSmsReceived firstLine m
          else (Inr (), emit (Logged Debug ''Unhandled unsolicited modem notification:'') m))"

section \<open>Calls\<close>

text \<open>
  The methods of \<^verbatim>\<open>IncomingCall\<close> take the call and the modem it refers to, and give
  both back. \<^verbatim>\<open>IncomingCall.__init__\<close>: ringing, not answered, one ring.
\<close>

definition init_IncomingCall ::
    "string option \<Rightarrow> int option \<Rightarrow> string option \<Rightarrow> string option \<Rightarrow> IncomingCall" where
  "init_IncomingCall num t name callType =
     \<lparr>number = num, ton = t, callerName = name, type = callType,
      ringing = True, answered = False, ringCount = 1\<rparr>"

definition answer :: "IncomingCall \<Rightarrow> GsmModem \<Rightarrow> (error + unit) \<times> IncomingCall \<times> GsmModem" where
  "answer c m =
     (if ringing c then
        (case command ''ATA'' m of
           (Inl e, m1) \<Rightarrow> (Inl e, c, m1)
         | (Inr _, m1) \<Rightarrow> (Inr (), c\<lparr>ringing := False, answered := True\<rparr>, m1))
      else (Inr (), c, m))"

text \<open>\<^verbatim>\<open>sendDtmfTone(tones)\<close>: \<^verbatim>\<open>';+VTS='.join(tones)\<close> joins the characters of \<^verbatim>\<open>tones\<close>.\<close>

definition sendDtmfTone ::
    "string \<Rightarrow> IncomingCall \<Rightarrow> GsmModem \<Rightarrow> (error + unit) \<times> IncomingCall \<times> GsmModem" where
  "sendDtmfTone tones c m =
     (if answered c then
        (let cmd = (if length tones > 1
                    then ''AT+VTS='' @ join '';+VTS='' (map (\<lambda>t. [t]) tones)
                    else ''AT+VTS='' @ tones) in
         case command cmd m of
           (Inl e, m1) \<Rightarrow> (Inl e, c, m1)
         | (Inr _, m1) \<Rightarrow> (Inr (), c, m1))
      else (Inl InvalidStateException, c, m))"

text \<open>
  \<^verbatim>\<open>hangup()\<close>. Its first statement is \<^verbatim>\<open>self.write('ATH')\<close>, on the call itself;
  \<^verbatim>\<open>IncomingCall\<close> has no attribute \<^verbatim>\<open>write\<close> (\<^verbatim>\<open>answer\<close> and \<^verbatim>\<open>sendDtmfTone\<close> go
  through \<^verbatim>\<open>self._gsmModem.write\<close>), so the statement raises AttributeError and the
  rest of the method (the two flags, the removal from \<^verbatim>\<open>activeCalls\<close>) is never
  reached.
\<close>

definition hangup :: "IncomingCall \<Rightarrow> GsmModem \<Rightarrow> (error + unit) \<times> IncomingCall \<times> GsmModem" where
  "hangup c m = (Inl AttributeError, c, m)"

text \<open>The states of the specification, read off the two flags of the call.\<close>

datatype call_state = RINGING | ANSWERED | ENDED

definition state_of :: "IncomingCall \<Rightarrow> call_state" where
  "state_of c = (if answered c then ANSWERED else if ringing c then RINGING else ENDED)"

section \<open>Notions of the statements\<close>

text \<open>
  A response is accepted by a command sent with the defaults when it has a last line
  without \<^verbatim>\<open>ERROR\<close>, and refused (a CommandError) when its last line contains it.
\<close>

definition accepted :: "string list \<Rightarrow> bool" where
  "accepted ls = (ls \<noteq> [] \<and> \<not> contains ''ERROR'' (last ls))"

definition refused :: "string list \<Rightarrow> bool" where
  "refused ls = (ls \<noteq> [] \<and> contains ''ERROR'' (last ls))"

text \<open>What \<^verbatim>\<open>CM_ERROR_REGEX\<close> reads off a line: the kind (group 1) and the code (group 2).\<close>

definition cm_kind :: "string \<Rightarrow> string option" where
  "cm_kind l = (case re_match CM_ERROR_REGEX l of Some g \<Rightarrow> group g 1 | None \<Rightarrow> None)"

definition cm_code :: "string \<Rightarrow> int option" where
  "cm_code l =
     (case re_match CM_ERROR_REGEX l of Some g \<Rightarrow> map_option py_int (group g 2) | None \<Rightarrow> None)"

text \<open>
  Between the modem \<open>m0\<close> and the modem \<open>m\<close>: if \<^verbatim>\<open>AT+CRC=1\<close> was sent, calling-line
  identification is on in \<open>m\<close>; and \<^verbatim>\<open>AT+CRC=1\<close> was not sent at all.
\<close>

definition crc_only_after_clip :: "GsmModem \<Rightarrow> GsmModem \<Rightarrow> bool" where
  "crc_only_after_clip m0 m =
     (\<exists>evs. trace m = trace m0 @ evs \<and>
        (Sent (''AT+CRC=1'' @ [CHR 0x0D]) \<in> set evs \<longrightarrow> callingLineIdentification m))"

definition no_crc_yet :: "GsmModem \<Rightarrow> GsmModem \<Rightarrow> bool" where
  "no_crc_yet m0 m =
     (\<exists>evs. trace m = trace m0 @ evs \<and> Sent (''AT+CRC=1'' @ [CHR 0x0D]) \<notin> set evs)"

text \<open>The steps of \<^verbatim>\<open>connect\<close> before the incoming-call setup.\<close>

definition bring_up_prefix :: "(GsmModem \<Rightarrow> (error + string list option) \<times> GsmModem) list" where
  "bring_up_prefix =
     [\<lambda>m. (Inr None, emit (Logged Debug ''Connecting to modem on port {} at {}bps'') m),
      command ''ATZ'', command ''ATE0'', command ''AT+CFUN=1'', command ''AT+CMEE=1'',
      write_GsmModem ''AT+WIND=0'' True False [CHR 0x0D], command ''AT+CMGF=1'',
      command ''AT+CSMP=49,167'', command ''AT+CPMS=\"SM\",\"SM\",\"SR\"'',
      command ''AT+CNMI=2,1,0,2'']"

text \<open>
  \<open>matches r s g rest\<close>: the pattern \<open>r\<close> matches a prefix of \<open>s\<close> in some way,
  capturing \<open>g\<close> and leaving \<open>rest\<close>. \<^verbatim>\<open>match\<close> reports the first of these ways, and
  \<^verbatim>\<open>None\<close> when there is none.
\<close>

definition matches :: "re \<Rightarrow> string \<Rightarrow> captures \<Rightarrow> string \<Rightarrow> bool" where
  "matches r s g rest = ((g, rest) \<in> set (rmatch r s))"

text \<open>
  The structured error line \<^verbatim>\<open>+(CME|CMS) ERROR: <digits>\<close>, with kind \<open>k\<close> and digits
  \<open>ds\<close>. As \<^verbatim>\<open>$\<close> does in Python, the pattern also accepts one newline after the
  digits.
\<close>

definition cm_error_line :: "string \<Rightarrow> string \<Rightarrow> string \<Rightarrow> bool" where
  "cm_error_line k ds l =
     ((k = ''CME'' \<or> k = ''CMS'') \<and> ds \<noteq> [] \<and> list_all digit ds \<and>
      (l = ''+'' @ k @ '' ERROR: '' @ ds \<or> l = ''+'' @ k @ '' ERROR: '' @ ds @ [CHR 0x0A]))"

text \<open>
  A line of the form \<^verbatim>\<open>+CSQ:<blanks><digits>,<rest>\<close>: what \<^verbatim>\<open>CSQ_REGEX\<close> matches, with
  the digits as its group.
\<close>

definition csq_line :: "string \<Rightarrow> string \<Rightarrow> string \<Rightarrow> string \<Rightarrow> bool" where
  "csq_line ws ds rest l =
     (l = ''+CSQ:'' @ ws @ ds @ '','' @ rest \<and> list_all space ws \<and> ds \<noteq> [] \<and> list_all digit ds)"

text \<open>A pattern that captures nothing, however it matches.\<close>

definition capture_free :: "re \<Rightarrow> bool" where
  "capture_free a = (\<forall>s g r. matches a s g r \<longrightarrow> g = [])"

section \<open>Evaluation\<close>

text \<open>The definitions that a closed term unfolds to when it is evaluated.\<close>

lemmas channel_defs =
  init_GsmModem_def emit_def write_SerialComms_def write_GsmModem_def command_def

lemmas regex_defs =
  re_match_def group_def seqs_def lit_def digit_def space_def dot_def not_comma_def
  not_quote_def

section \<open>DTMF tones\<close>

lemma join_chars:
  "join sep (map (\<lambda>t. [t]) (t # ts)) = t # concat (map (\<lambda>u. sep @ [u]) ts)"
  by (induction ts arbitrary: t) simp_all

lemma command_trace:
  "trace (snd (command data m)) = trace m @ [Sent (data @ [CHR 0x0D])]"
  by (simp add: channel_defs Let_def split: list.splits reply.splits option.splits)

text \<open>
  C8. \<^verbatim>\<open>sendDtmfTone\<close> on a call that is not ANSWERED (RINGING or ENDED) raises
  InvalidStateException, which is not a CommandError, and leaves the modem as it was:
  nothing is handed to the transport. On an ANSWERED call exactly one command is handed
  over: a single tone \<open>t\<close> goes out as \<^verbatim>\<open>AT+VTS=t\<close>, and two or more tones go out in
  one command, the first after \<^verbatim>\<open>AT+VTS=\<close> and every later one after the separator
  \<^verbatim>\<open>;+VTS=\<close>.
\<close>

theorem sendDtmfTone_by_state:
  "(state_of c \<noteq> ANSWERED \<longrightarrow>
      sendDtmfTone tones c m = (Inl InvalidStateException, c, m)
      \<and> (\<forall>k n. InvalidStateException \<noteq> CommandError k n))
   \<and> (state_of c = ANSWERED \<longrightarrow>
      trace (snd (snd (sendDtmfTone [t] c m))) =
        trace m @ [Sent (''AT+VTS='' @ [t] @ [CHR 0x0D])]
      \<and> trace (snd (snd (sendDtmfTone (t # u # us) c m))) =
        trace m @ [Sent (''AT+VTS='' @ [t] @ concat (map (\<lambda>x. '';+VTS='' @ [x]) (u # us))
                         @ [CHR 0x0D])])"
proof -
  have modem_after: "snd (snd (sendDtmfTone ts c m)) =
      snd (command (if length ts > 1 then ''AT+VTS='' @ join '';+VTS='' (map (\<lambda>t. [t]) ts)
                    else ''AT+VTS='' @ ts) m)"
    if "answered c" for ts
    using that by (simp add: sendDtmfTone_def Let_def split: prod.splits sum.splits)
  have one: "state_of c = ANSWERED \<longleftrightarrow> answered c"
    by (simp add: state_of_def)
  show ?thesis
    using modem_after [of "[t]"] modem_after [of "t # u # us"]
      join_chars [of "'';+VTS=''" t "u # us"]
    by (simp add: one sendDtmfTone_def command_trace)
qed

theorem sendDtmfTone_by_state_witness:
  "state_of (init_IncomingCall (Some ''+27821234567'') None None None) \<noteq> ANSWERED
   \<and> sendDtmfTone ''5'' (init_IncomingCall (Some ''+27821234567'') None None None)
        (init_GsmModem [Lines [''OK'']])
      = (Inl InvalidStateException, init_IncomingCall (Some ''+27821234567'') None None None,
         init_GsmModem [Lines [''OK'']])
   \<and> state_of ((init_IncomingCall None None None None)\<lparr>ringing := False, answered := True\<rparr>)
       = ANSWERED
   \<and> trace (snd (snd (sendDtmfTone ''123''
        ((init_IncomingCall None None None None)\<lparr>ringing := False, answered := True\<rparr>)
        (init_GsmModem [Lines [''OK'']]))))
      = [Sent (''AT+VTS=1;+VTS=2;+VTS=3'' @ [CHR 0x0D])]"
  using sendDtmfTone_by_state [of "init_IncomingCall (Some ''+27821234567'') None None None"
      "''5''" "init_GsmModem [Lines [''OK'']]"]
    sendDtmfTone_by_state [of
      "(init_IncomingCall None None None None)\<lparr>ringing := False, answered := True\<rparr>"
      "[]" "init_GsmModem [Lines [''OK'']]" "CHR ''1''" "CHR ''2''" "''3''"]
  by (simp add: state_of_def init_IncomingCall_def init_GsmModem_def)

section \<open>Ring notifications and the registry\<close>

text \<open>
  C3. A ring for a number that already has a live call in the registry: the handler
  stops with AttributeError at the test on \<^verbatim>\<open>self._activeCalls\<close>; the registered call
  keeps its ring count, and nothing reaches the callback. A ring without caller number
  ends the same way: no call record is made.
\<close>

theorem ring_raises_AttributeError:
  "threadedHandleModemNotification [''RING'', ''+CLIP: \"+27821234567\",145,,,,'']
     ((init_GsmModem [])\<lparr>callingLineIdentification := True,
        activeCalls := [Some ''+27821234567'' \<mapsto>
          init_IncomingCall (Some ''+27821234567'') None None None]\<rparr>)
   = (Inl AttributeError,
      (init_GsmModem [])\<lparr>callingLineIdentification := True,
        activeCalls := [Some ''+27821234567'' \<mapsto>
          init_IncomingCall (Some ''+27821234567'') None None None]\<rparr>)
   \<and> threadedHandleModemNotification [''RING''] (init_GsmModem [])
       = (Inl AttributeError, init_GsmModem [])"
  by (simp add: threadedHandleModemNotification_def handleIncomingCall_def
        handleIncomingCall_locals_def init_GsmModem_def CLIP_REGEX_def regex_defs)

section \<open>Hanging up\<close>

text \<open>
  C4. \<^verbatim>\<open>hangup()\<close> on a ringing call that is in the registry: AttributeError; no
  \<^verbatim>\<open>ATH\<close> is sent, the call is still RINGING and still registered under its number.
\<close>

theorem hangup_raises_AttributeError:
  "hangup (init_IncomingCall (Some ''+27821234567'') None None None)
     ((init_GsmModem [Lines [''OK'']])\<lparr>activeCalls := [Some ''+27821234567'' \<mapsto>
          init_IncomingCall (Some ''+27821234567'') None None None]\<rparr>)
   = (Inl AttributeError, init_IncomingCall (Some ''+27821234567'') None None None,
      (init_GsmModem [Lines [''OK'']])\<lparr>activeCalls := [Some ''+27821234567'' \<mapsto>
          init_IncomingCall (Some ''+27821234567'') None None None]\<rparr>)
   \<and> state_of (init_IncomingCall (Some ''+27821234567'') None None None) = RINGING
   \<and> trace ((init_GsmModem [Lines [''OK'']])\<lparr>activeCalls := [Some ''+27821234567'' \<mapsto>
          init_IncomingCall (Some ''+27821234567'') None None None]\<rparr>) = []"
  by (simp add: hangup_def state_of_def init_IncomingCall_def init_GsmModem_def)

section \<open>Waiting for network coverage\<close>

text \<open>
  C5. The modem answers the first poll with strength 99 (unknown): \<^verbatim>\<open>signalStrength\<close>
  gives \<open>-1\<close>, the test \<^verbatim>\<open>if ss:\<close> holds for it, and \<^verbatim>\<open>waitForNetworkCoverage\<close> returns
  \<open>-1\<close> after that one poll.
\<close>

theorem waitForNetworkCoverage_returns_unknown:
  "waitForNetworkCoverage None (init_GsmModem [Lines [''+CSQ: 99,99'', ''OK'']])
   = (Inr (- 1), (init_GsmModem [])\<lparr>trace := [Sent (''AT+CSQ'' @ [CHR 0x0D])]\<rparr>)"
  by (simp add: signalStrength_def channel_defs CSQ_REGEX_def regex_defs py_int_def)

section \<open>New-message notifications\<close>

lemma handleSmsReceived_no_match:
  "re_match CMTI_REGEX l = None \<Longrightarrow> handleSmsReceived l m = (Inr (), m)"
  by (simp add: handleSmsReceived_def)

text \<open>
  C10, as the code has it. A first line that is classified as a new-message
  notification (no \<^verbatim>\<open>RING\<close> in it, and it starts with \<^verbatim>\<open>+CMTI\<close>) but does not match
  \<^verbatim>\<open>CMTI_REGEX\<close> is ignored: the handler returns normally and the modem is as before, so
  no command was sent, no callback was called and the logger was not called.
\<close>

theorem malformed_CMTI_ignored:
  "\<not> contains ''RING'' l \<and> prefix ''+CMTI'' l \<and> re_match CMTI_REGEX l = None
     \<longrightarrow> handleSmsReceived l m = (Inr (), m)
       \<and> threadedHandleModemNotification (l # ls) m = (Inr (), m)"
  by (simp add: threadedHandleModemNotification_def handleSmsReceived_def)

theorem malformed_CMTI_ignored_witness:
  "\<not> contains ''RING'' ''+CMTI: \"SM\",x'' \<and> prefix ''+CMTI'' ''+CMTI: \"SM\",x''
   \<and> re_match CMTI_REGEX ''+CMTI: \"SM\",x'' = None
   \<and> handleSmsReceived ''+CMTI: \"SM\",x'' (init_GsmModem [Lines [''OK'']])
       = (Inr (), init_GsmModem [Lines [''OK'']])
   \<and> threadedHandleModemNotification [''+CMTI: \"SM\",x''] (init_GsmModem [Lines [''OK'']])
       = (Inr (), init_GsmModem [Lines [''OK'']])"
  using malformed_CMTI_ignored [of "''+CMTI: \"SM\",x''" "init_GsmModem [Lines [''OK'']]" "[]"]
  by (simp add: CMTI_REGEX_def regex_defs)

text \<open>
  C10, as the claim states it, fails: the line \<^verbatim>\<open>+CMTI: "SM",x\<close> starts with the prefix and
  does not match the grammar, and handling it returns normally with an empty trace, where
  the claim requires a logged CommandError.
\<close>

theorem malformed_CMTI_counterexample:
  "prefix ''+CMTI'' ''+CMTI: \"SM\",x'' \<and> \<not> contains ''RING'' ''+CMTI: \"SM\",x''
   \<and> re_match CMTI_REGEX ''+CMTI: \"SM\",x'' = None
   \<and> threadedHandleModemNotification [''+CMTI: \"SM\",x''] (init_GsmModem [Lines [''OK'']])
       = (Inr (), init_GsmModem [Lines [''OK'']])
   \<and> trace (snd (threadedHandleModemNotification [''+CMTI: \"SM\",x'']
         (init_GsmModem [Lines [''OK'']]))) = []"
  by (simp add: threadedHandleModemNotification_def handleSmsReceived_def init_GsmModem_def
        CMTI_REGEX_def regex_defs)

lemma command_state:
  "command d m = (r, m1) \<Longrightarrow> trace m1 = trace m @ [Sent (d @ [CHR 0x0D])]"
  using command_trace [of d m] by simp

lemma readStoredSmsMessage_trace:
  "readStoredSmsMessage idx m = (r, m1) \<Longrightarrow>
     trace m1 = trace m @ [Sent (''AT+CMGR='' @ format_str idx @ [CHR 0x0D])]"
  by (auto simp: readStoredSmsMessage_def dest!: command_state
        split: prod.splits sum.splits option.splits list.splits)

lemma deleteStoredMessage_trace:
  "deleteStoredMessage idx m = (r, m1) \<Longrightarrow>
     trace m1 = trace m @ [Sent (''AT+CMGD='' @ format_str idx @ [CHR 0x0D])]"
  by (auto simp: deleteStoredMessage_def dest!: command_state split: prod.splits sum.splits)

lemma readStoredSmsMessage_text:
  "replies m = Lines ls # rs \<Longrightarrow> readStoredSmsMessage idx m = (Inr sms, m1) \<Longrightarrow>
     text_sms sms = join [CHR 0x0A] (butlast (tl ls))"
  by (auto simp: readStoredSmsMessage_def channel_defs Let_def
        split: prod.splits sum.splits option.splits list.splits if_splits)

lemma handleSmsReceived_order:
  assumes "re_match CMTI_REGEX l = Some g" "handleSmsReceived l m = (Inr (), m1)"
  shows "\<exists>sms. trace m1 = trace m @
           [Sent (''AT+CMGR='' @ format_str (group g 2) @ [CHR 0x0D]),
            Sent (''AT+CMGD='' @ format_str (group g 2) @ [CHR 0x0D]),
            SmsReceivedCallback sms]"
  using assms
  by (auto simp: handleSmsReceived_def emit_def Let_def
        dest!: readStoredSmsMessage_trace deleteStoredMessage_trace
        split: prod.splits sum.splits)

text \<open>
  C2. A modem that answers the read command with the header
  \<^verbatim>\<open>+CMGR: "REC UNREAD","+12025550123",,"23/01/01,12:00:00+02"\<close>, the body line
  \<^verbatim>\<open>Hello\<close> and \<^verbatim>\<open>OK\<close>, and the delete command with any lines whose last has no
  \<^verbatim>\<open>ERROR\<close>: on the notification \<^verbatim>\<open>+CMTI: "SM",4\<close> the handler sends the read for
  index 4, then the delete for index 4, and only then calls the delivery callback, with the
  message of status REC UNREAD, number +12025550123, that time and text Hello. On every
  modem, the text of a message that was read is the lines of the response without the
  first and the last, joined by newlines; and whenever a notification that matches the
  grammar is handled to the end, the trace grows by exactly the read, the delete for the
  same index and the callback, in this order.
\<close>

theorem sms_received_pipeline:
  assumes "replies m =
      Lines [''+CMGR: \"REC UNREAD\",\"+12025550123\",,\"23/01/01,12:00:00+02\"'', ''Hello'', ''OK'']
      # Lines (d # ds) # rs"
    and "\<not> contains ''ERROR'' (last (d # ds))"
  shows "threadedHandleModemNotification [''+CMTI: \"SM\",4''] m =
      (Inr (),
       m\<lparr>replies := rs,
         trace := trace m @
           [Sent (''AT+CMGR=4'' @ [CHR 0x0D]),
            Sent (''AT+CMGD=4'' @ [CHR 0x0D]),
            SmsReceivedCallback
              \<lparr>number_sms = Some ''+12025550123'', text_sms = ''Hello'',
               status_sms = Some ''REC UNREAD'', time_sms = Some ''23/01/01,12:00:00+02''\<rparr>]\<rparr>)
    \<and> (replies m' = Lines ls # rs' \<and> readStoredSmsMessage idx m' = (Inr sms, m1)
         \<longrightarrow> text_sms sms = join [CHR 0x0A] (butlast (tl ls)))
    \<and> (re_match CMTI_REGEX l = Some g \<and> handleSmsReceived l m' = (Inr (), m2)
         \<longrightarrow> (\<exists>sms. trace m2 = trace m' @
               [Sent (''AT+CMGR='' @ format_str (group g 2) @ [CHR 0x0D]),
                Sent (''AT+CMGD='' @ format_str (group g 2) @ [CHR 0x0D]),
                SmsReceivedCallback sms]))"
proof -
  have idx: "re_match CMTI_REGEX ''+CMTI: \"SM\",4'' = Some [(1, ''\"SM\"''), (2, ''4'')]"
    by (simp add: CMTI_REGEX_def regex_defs)
  have hdr: "re_match CMGR_SM_DELIVER_REGEX
      ''+CMGR: \"REC UNREAD\",\"+12025550123\",,\"23/01/01,12:00:00+02\"'' =
      Some [(1, ''REC UNREAD''), (2, ''+12025550123''), (3, ''23/01/01,12:00:00+02'')]"
    by (simp add: CMGR_SM_DELIVER_REGEX_def regex_defs)
  have scenario: "threadedHandleModemNotification [''+CMTI: \"SM\",4''] m =
      (Inr (),
       m\<lparr>replies := rs,
         trace := trace m @
           [Sent (''AT+CMGR=4'' @ [CHR 0x0D]),
            Sent (''AT+CMGD=4'' @ [CHR 0x0D]),
            SmsReceivedCallback
              \<lparr>number_sms = Some ''+12025550123'', text_sms = ''Hello'',
               status_sms = Some ''REC UNREAD'', time_sms = Some ''23/01/01,12:00:00+02''\<rparr>]\<rparr>)"
    using assms
    by (simp add: threadedHandleModemNotification_def handleSmsReceived_def idx hdr
          readStoredSmsMessage_def deleteStoredMessage_def channel_defs group_def
          format_str_def)
  from scenario readStoredSmsMessage_text [of m' ls rs' idx sms m1]
    handleSmsReceived_order [of l g m' m2]
  show ?thesis by blast
qed

theorem sms_received_pipeline_witness:
  "threadedHandleModemNotification [''+CMTI: \"SM\",4'']
     (init_GsmModem
        [Lines [''+CMGR: \"REC UNREAD\",\"+12025550123\",,\"23/01/01,12:00:00+02\"'',
                ''Hello'', ''OK''],
         Lines [''OK'']]) =
      (Inr (),
       (init_GsmModem [])\<lparr>trace :=
           [Sent (''AT+CMGR=4'' @ [CHR 0x0D]),
            Sent (''AT+CMGD=4'' @ [CHR 0x0D]),
            SmsReceivedCallback
              \<lparr>number_sms = Some ''+12025550123'', text_sms = ''Hello'',
               status_sms = Some ''REC UNREAD'', time_sms = Some ''23/01/01,12:00:00+02''\<rparr>]\<rparr>)"
  using sms_received_pipeline [of
      "init_GsmModem
        [Lines [''+CMGR: \"REC UNREAD\",\"+12025550123\",,\"23/01/01,12:00:00+02\"'',
                ''Hello'', ''OK''],
         Lines [''OK'']]" "''OK''" "[]" "[]"]
  by (simp add: init_GsmModem_def)

section \<open>Bring-up: the two optional steps\<close>

lemma command_accepted:
  "replies m = Lines ls # rs \<Longrightarrow> accepted ls \<Longrightarrow>
     command d m = (Inr (Some ls), m\<lparr>replies := rs, trace := trace m @ [Sent (d @ [CHR 0x0D])]\<rparr>)"
  by (cases ls) (simp_all add: accepted_def channel_defs)

lemma command_refused:
  "replies m = Lines ls # rs \<Longrightarrow> refused ls \<Longrightarrow>
     \<exists>k c. command d m =
       (Inl (CommandError k c), m\<lparr>replies := rs, trace := trace m @ [Sent (d @ [CHR 0x0D])]\<rparr>)"
  by (cases ls) (simp_all add: refused_def channel_defs split: option.splits)

lemma write_unparsed:
  "replies m = Lines ls # rs \<Longrightarrow> ls \<noteq> [] \<Longrightarrow>
     write_GsmModem d True False t m =
       (Inr (Some ls), m\<lparr>replies := rs, trace := trace m @ [Sent (d @ t)]\<rparr>)"
  by (cases ls) (simp_all add: channel_defs)

lemma incomingCallSetup_clip_refused:
  assumes "replies m = Lines clip # rs" "refused clip"
  shows "incomingCallSetup m =
     (Inr None,
      m\<lparr>callingLineIdentification := False, replies := rs,
        trace := trace m @ [Sent (''AT+CLIP=1'' @ [CHR 0x0D]),
          Logged Warn
            ''Incoming call calling line identification (caller ID) not supported by modem. Error: {}'']\<rparr>)"
proof -
  from command_refused [OF assms, of "''AT+CLIP=1''"] obtain k c where
    "command ''AT+CLIP=1'' m =
       (Inl (CommandError k c),
        m\<lparr>replies := rs, trace := trace m @ [Sent (''AT+CLIP=1'' @ [CHR 0x0D])]\<rparr>)"
    by blast
  then show ?thesis by (simp add: incomingCallSetup_def emit_def)
qed

lemma incomingCallSetup_crc_refused:
  assumes "replies m = Lines clip # Lines crc # rs" "accepted clip" "refused crc"
  shows "incomingCallSetup m =
     (Inr None,
      m\<lparr>callingLineIdentification := True, extendedIncomingCallIndication := False,
        replies := rs,
        trace := trace m @ [Sent (''AT+CLIP=1'' @ [CHR 0x0D]), Sent (''AT+CRC=1'' @ [CHR 0x0D]),
          Logged Info
            ''Extended format incoming call indication not supported by modem. Error: {}'']\<rparr>)"
proof -
  let ?m1 = "m\<lparr>replies := Lines crc # rs,
              trace := trace m @ [Sent (''AT+CLIP=1'' @ [CHR 0x0D])]\<rparr>"
  have 1: "command ''AT+CLIP=1'' m = (Inr (Some clip), ?m1)"
    using command_accepted [OF assms(1,2)] by simp
  have "replies (?m1\<lparr>callingLineIdentification := True\<rparr>) = Lines crc # rs" by simp
  from command_refused [OF this assms(3), of "''AT+CRC=1''"] obtain k c where
    "command ''AT+CRC=1'' (?m1\<lparr>callingLineIdentification := True\<rparr>) =
       (Inl (CommandError k c),
        ?m1\<lparr>callingLineIdentification := True, replies := rs,
          trace := trace ?m1 @ [Sent (''AT+CRC=1'' @ [CHR 0x0D])]\<rparr>)"
    by auto
  with 1 show ?thesis by (simp add: incomingCallSetup_def emit_def)
qed

lemma incomingCallSetup_both_accepted:
  assumes "replies m = Lines clip # Lines crc # rs" "accepted clip" "accepted crc"
  shows "incomingCallSetup m =
     (Inr None,
      m\<lparr>callingLineIdentification := True, extendedIncomingCallIndication := True,
        replies := rs,
        trace := trace m @ [Sent (''AT+CLIP=1'' @ [CHR 0x0D]), Sent (''AT+CRC=1'' @ [CHR 0x0D])]\<rparr>)"
proof -
  let ?m1 = "m\<lparr>replies := Lines crc # rs,
              trace := trace m @ [Sent (''AT+CLIP=1'' @ [CHR 0x0D])]\<rparr>"
  have 1: "command ''AT+CLIP=1'' m = (Inr (Some clip), ?m1)"
    using command_accepted [OF assms(1,2)] by simp
  have "replies (?m1\<lparr>callingLineIdentification := True\<rparr>) = Lines crc # rs" by simp
  from command_accepted [OF this assms(3), of "''AT+CRC=1''"] 1
  show ?thesis by (simp add: incomingCallSetup_def)
qed

lemma command_eq:
  "command d m =
     (case replies m of
        [] \<Rightarrow> (Inl TimeoutException, m\<lparr>trace := trace m @ [Sent (d @ [CHR 0x0D])]\<rparr>)
      | Silence # rs \<Rightarrow>
          (Inl TimeoutException, m\<lparr>replies := rs, trace := trace m @ [Sent (d @ [CHR 0x0D])]\<rparr>)
      | Lines ls # rs \<Rightarrow>
          (if accepted ls then Inr (Some ls)
           else if refused ls then Inl (CommandError (cm_kind (last ls)) (cm_code (last ls)))
           else Inl IndexError,
           m\<lparr>replies := rs, trace := trace m @ [Sent (d @ [CHR 0x0D])]\<rparr>))"
  by (auto simp: channel_defs accepted_def refused_def cm_kind_def cm_code_def
        split: list.splits reply.splits option.splits)

lemma connect_clip_refused:
  assumes "replies m = Lines a1 # Lines a2 # Lines a3 # Lines a4 # Lines w # Lines b1 # Lines b2
      # Lines b3 # Lines b4 # Lines clip # Lines cvhu # rs"
    and "accepted a1" "accepted a2" "accepted a3" "accepted a4" "w \<noteq> []"
    and "accepted b1" "accepted b2" "accepted b3" "accepted b4"
    and "refused clip" "accepted cvhu"
  shows "connect m =
    (Inr (),
     m\<lparr>callingLineIdentification := False, replies := rs,
       trace := trace m @
         [Logged Debug ''Connecting to modem on port {} at {}bps'',
          Sent (''ATZ'' @ [CHR 0x0D]), Sent (''ATE0'' @ [CHR 0x0D]),
          Sent (''AT+CFUN=1'' @ [CHR 0x0D]), Sent (''AT+CMEE=1'' @ [CHR 0x0D]),
          Sent (''AT+WIND=0'' @ [CHR 0x0D]), Sent (''AT+CMGF=1'' @ [CHR 0x0D]),
          Sent (''AT+CSMP=49,167'' @ [CHR 0x0D]),
          Sent (''AT+CPMS=\"SM\",\"SM\",\"SR\"'' @ [CHR 0x0D]),
          Sent (''AT+CNMI=2,1,0,2'' @ [CHR 0x0D]),
          Sent (''AT+CLIP=1'' @ [CHR 0x0D]),
          Logged Warn
            ''Incoming call calling line identification (caller ID) not supported by modem. Error: {}'',
          Sent (''AT+CVHU=0'' @ [CHR 0x0D])]\<rparr>)"
proof -
  have "\<not> accepted clip" using assms(11) by (simp add: refused_def accepted_def)
  then show ?thesis
    using assms
    by (simp add: connect_def command_eq write_unparsed incomingCallSetup_def emit_def)
qed

lemma connect_crc_refused:
  assumes "replies m = Lines a1 # Lines a2 # Lines a3 # Lines a4 # Lines w # Lines b1 # Lines b2
      # Lines b3 # Lines b4 # Lines clip # Lines crc # Lines cvhu # rs"
    and "accepted a1" "accepted a2" "accepted a3" "accepted a4" "w \<noteq> []"
    and "accepted b1" "accepted b2" "accepted b3" "accepted b4"
    and "accepted clip" "refused crc" "accepted cvhu"
  shows "connect m =
    (Inr (),
     m\<lparr>callingLineIdentification := True, extendedIncomingCallIndication := False,
       replies := rs,
       trace := trace m @
         [Logged Debug ''Connecting to modem on port {} at {}bps'',
          Sent (''ATZ'' @ [CHR 0x0D]), Sent (''ATE0'' @ [CHR 0x0D]),
          Sent (''AT+CFUN=1'' @ [CHR 0x0D]), Sent (''AT+CMEE=1'' @ [CHR 0x0D]),
          Sent (''AT+WIND=0'' @ [CHR 0x0D]), Sent (''AT+CMGF=1'' @ [CHR 0x0D]),
          Sent (''AT+CSMP=49,167'' @ [CHR 0x0D]),
          Sent (''AT+CPMS=\"SM\",\"SM\",\"SR\"'' @ [CHR 0x0D]),
          Sent (''AT+CNMI=2,1,0,2'' @ [CHR 0x0D]),
          Sent (''AT+CLIP=1'' @ [CHR 0x0D]), Sent (''AT+CRC=1'' @ [CHR 0x0D]),
          Logged Info
            ''Extended format incoming call indication not supported by modem. Error: {}'',
          Sent (''AT+CVHU=0'' @ [CHR 0x0D])]\<rparr>)"
proof -
  have "\<not> accepted crc" using assms(12) by (simp add: refused_def accepted_def)
  then show ?thesis
    using assms
    by (simp add: connect_def command_eq write_unparsed incomingCallSetup_def emit_def)
qed

lemma in_order_invariant:
  assumes "\<And>c m r m1. c \<in> set cs \<Longrightarrow> P m \<Longrightarrow> c m = (r, m1) \<Longrightarrow> P m1"
    and "P m" "in_order cs m = (r, m1)"
  shows "P m1"
  using assms
proof (induction cs arbitrary: m)
  case Nil
  then show ?case by simp
next
  case (Cons c cs)
  obtain r0 m0 where c: "c m = (r0, m0)" by (cases "c m")
  have P0: "P m0" using Cons.prems(1) [of c m r0 m0] Cons.prems(2) c by simp
  show ?case
  proof (cases r0)
    case (Inl e)
    with Cons.prems(3) c P0 show ?thesis by simp
  next
    case (Inr x)
    with Cons.prems(3) c have rest: "in_order cs m0 = (r, m1)" by simp
    have step: "\<And>c' m r m1. c' \<in> set cs \<Longrightarrow> P m \<Longrightarrow> c' m = (r, m1) \<Longrightarrow> P m1"
      using Cons.prems(1) by (meson list.set_intros(2))
    show ?thesis by (rule Cons.IH [OF step P0 rest])
  qed
qed

lemma command_keeps:
  assumes "d \<noteq> ''AT+CRC=1''" "crc_only_after_clip m0 m" "command d m = (r, m1)"
  shows "crc_only_after_clip m0 m1"
  using assms
  by (auto simp: crc_only_after_clip_def command_eq
        split: list.splits reply.splits if_splits)

lemma write_unparsed_eq:
  "write_GsmModem d True False t m =
     (case replies m of
        [] \<Rightarrow> (Inl TimeoutException, m\<lparr>trace := trace m @ [Sent (d @ t)]\<rparr>)
      | Silence # rs \<Rightarrow> (Inl TimeoutException, m\<lparr>replies := rs, trace := trace m @ [Sent (d @ t)]\<rparr>)
      | Lines ls # rs \<Rightarrow>
          (if ls = [] then Inl IndexError else Inr (Some ls),
           m\<lparr>replies := rs, trace := trace m @ [Sent (d @ t)]\<rparr>))"
  by (auto simp: channel_defs split: list.splits reply.splits)

lemma write_keeps:
  assumes "d \<noteq> ''AT+CRC=1''" "crc_only_after_clip m0 m"
    "write_GsmModem d True False [CHR 0x0D] m = (r, m1)"
  shows "crc_only_after_clip m0 m1"
  using assms
  by (auto simp: crc_only_after_clip_def write_unparsed_eq
        split: list.splits reply.splits if_splits)

lemma command_no_crc:
  assumes "d \<noteq> ''AT+CRC=1''" "no_crc_yet m0 m" "command d m = (r, m1)"
  shows "no_crc_yet m0 m1"
  using assms
  by (auto simp: no_crc_yet_def command_eq split: list.splits reply.splits if_splits)

lemma write_no_crc:
  assumes "d \<noteq> ''AT+CRC=1''" "no_crc_yet m0 m"
    "write_GsmModem d True False [CHR 0x0D] m = (r, m1)"
  shows "no_crc_yet m0 m1"
  using assms
  by (auto simp: no_crc_yet_def write_unparsed_eq split: list.splits reply.splits if_splits)

lemma incomingCallSetup_establishes:
  assumes "no_crc_yet m0 m" "incomingCallSetup m = (r, m1)"
  shows "crc_only_after_clip m0 m1"
  using assms
  by (auto simp: no_crc_yet_def crc_only_after_clip_def incomingCallSetup_def command_eq emit_def
        split: list.splits reply.splits if_splits)

lemma in_order_append:
  "in_order (xs @ ys) m =
     (case in_order xs m of (Inl e, m1) \<Rightarrow> (Inl e, m1) | (Inr u, m1) \<Rightarrow> in_order ys m1)"
  by (induction xs arbitrary: m) (auto split: prod.splits sum.splits)

lemma connect_split:
  "connect m = in_order (bring_up_prefix @ [incomingCallSetup, command ''AT+CVHU=0'']) m"
  by (simp add: connect_def bring_up_prefix_def)

lemma log_no_crc: "no_crc_yet m0 m \<Longrightarrow> no_crc_yet m0 (emit (Logged l s) m)"
  by (auto simp: no_crc_yet_def emit_def)

lemma prefix_no_crc:
  assumes "in_order bring_up_prefix m = (r, m1)"
  shows "no_crc_yet m m1"
proof (rule in_order_invariant [where P = "no_crc_yet m", OF _ _ assms])
  show "no_crc_yet m m" by (simp add: no_crc_yet_def)
next
  fix c m' r' m1'
  assume "c \<in> set bring_up_prefix" and "no_crc_yet m m'" and "c m' = (r', m1')"
  then show "no_crc_yet m m1'"
    unfolding bring_up_prefix_def
    by (auto intro: log_no_crc
          elim: command_no_crc [rotated 1] write_no_crc [rotated 1])
qed

lemma connect_crc_only_after_clip: "crc_only_after_clip m (snd (connect m))"
proof (cases "in_order bring_up_prefix m")
  case (Pair r0 m0)
  then have q: "no_crc_yet m m0" by (rule prefix_no_crc)
  show ?thesis
  proof (cases r0)
    case (Inl e)
    with Pair q show ?thesis
      by (auto simp: connect_split in_order_append no_crc_yet_def crc_only_after_clip_def)
  next
    case (Inr u)
    obtain r1 m1 where s: "incomingCallSetup m0 = (r1, m1)" by (cases "incomingCallSetup m0")
    from incomingCallSetup_establishes [OF q s] have p: "crc_only_after_clip m m1" .
    show ?thesis
    proof (cases r1)
      case (Inl e)
      with Pair Inr s p show ?thesis by (simp add: connect_split in_order_append)
    next
      case (Inr v)
      obtain r2 m2 where c: "command ''AT+CVHU=0'' m1 = (r2, m2)"
        by (cases "command ''AT+CVHU=0'' m1")
      from command_keeps [OF _ p c] have "crc_only_after_clip m m2" by simp
      with Pair \<open>r0 = Inr u\<close> s Inr c show ?thesis
        by (cases r2) (simp_all add: connect_split in_order_append)
    qed
  qed
qed

text \<open>
  C7. Bring-up on a modem that accepts the nine commands before \<^verbatim>\<open>AT+CLIP=1\<close> (any
  non-empty answer will do for \<^verbatim>\<open>AT+WIND=0\<close>) and accepts \<^verbatim>\<open>AT+CVHU=0\<close>. If it refuses
  \<^verbatim>\<open>AT+CLIP=1\<close>, \<^verbatim>\<open>connect\<close> returns normally, the calling-line-identification flag is
  off, and the commands sent are the ten, then \<^verbatim>\<open>AT+CVHU=0\<close>: \<^verbatim>\<open>AT+CRC=1\<close> is not among
  them. If it accepts \<^verbatim>\<open>AT+CLIP=1\<close> and refuses \<^verbatim>\<open>AT+CRC=1\<close>, \<^verbatim>\<open>connect\<close> returns
  normally with the first flag on and the flag of the extended indication off. And on
  every modem, whatever it answers: if \<^verbatim>\<open>connect\<close> sent \<^verbatim>\<open>AT+CRC=1\<close>, then
  \<^verbatim>\<open>AT+CLIP=1\<close> had succeeded (the flag is on afterwards).
\<close>

theorem connect_optional_steps:
  "(replies m = Lines a1 # Lines a2 # Lines a3 # Lines a4 # Lines w # Lines b1 # Lines b2
        # Lines b3 # Lines b4 # Lines clip # Lines cvhu # rs
      \<and> accepted a1 \<and> accepted a2 \<and> accepted a3 \<and> accepted a4 \<and> w \<noteq> []
      \<and> accepted b1 \<and> accepted b2 \<and> accepted b3 \<and> accepted b4
      \<and> refused clip \<and> accepted cvhu
    \<longrightarrow> connect m =
      (Inr (),
       m\<lparr>callingLineIdentification := False, replies := rs,
         trace := trace m @
           [Logged Debug ''Connecting to modem on port {} at {}bps'',
            Sent (''ATZ'' @ [CHR 0x0D]), Sent (''ATE0'' @ [CHR 0x0D]),
            Sent (''AT+CFUN=1'' @ [CHR 0x0D]), Sent (''AT+CMEE=1'' @ [CHR 0x0D]),
            Sent (''AT+WIND=0'' @ [CHR 0x0D]), Sent (''AT+CMGF=1'' @ [CHR 0x0D]),
            Sent (''AT+CSMP=49,167'' @ [CHR 0x0D]),
            Sent (''AT+CPMS=\"SM\",\"SM\",\"SR\"'' @ [CHR 0x0D]),
            Sent (''AT+CNMI=2,1,0,2'' @ [CHR 0x0D]),
            Sent (''AT+CLIP=1'' @ [CHR 0x0D]),
            Logged Warn
              ''Incoming call calling line identification (caller ID) not supported by modem. Error: {}'',
            Sent (''AT+CVHU=0'' @ [CHR 0x0D])]\<rparr>))
   \<and> (replies n = Lines a1 # Lines a2 # Lines a3 # Lines a4 # Lines w # Lines b1 # Lines b2
        # Lines b3 # Lines b4 # Lines clip' # Lines crc # Lines cvhu # rs
      \<and> accepted a1 \<and> accepted a2 \<and> accepted a3 \<and> accepted a4 \<and> w \<noteq> []
      \<and> accepted b1 \<and> accepted b2 \<and> accepted b3 \<and> accepted b4
      \<and> accepted clip' \<and> refused crc \<and> accepted cvhu
    \<longrightarrow> connect n =
      (Inr (),
       n\<lparr>callingLineIdentification := True, extendedIncomingCallIndication := False,
         replies := rs,
         trace := trace n @
           [Logged Debug ''Connecting to modem on port {} at {}bps'',
            Sent (''ATZ'' @ [CHR 0x0D]), Sent (''ATE0'' @ [CHR 0x0D]),
            Sent (''AT+CFUN=1'' @ [CHR 0x0D]), Sent (''AT+CMEE=1'' @ [CHR 0x0D]),
            Sent (''AT+WIND=0'' @ [CHR 0x0D]), Sent (''AT+CMGF=1'' @ [CHR 0x0D]),
            Sent (''AT+CSMP=49,167'' @ [CHR 0x0D]),
            Sent (''AT+CPMS=\"SM\",\"SM\",\"SR\"'' @ [CHR 0x0D]),
            Sent (''AT+CNMI=2,1,0,2'' @ [CHR 0x0D]),
            Sent (''AT+CLIP=1'' @ [CHR 0x0D]), Sent (''AT+CRC=1'' @ [CHR 0x0D]),
            Logged Info
              ''Extended format incoming call indication not supported by modem. Error: {}'',
            Sent (''AT+CVHU=0'' @ [CHR 0x0D])]\<rparr>))
   \<and> (\<exists>evs. trace (snd (connect k)) = trace k @ evs
        \<and> (Sent (''AT+CRC=1'' @ [CHR 0x0D]) \<in> set evs
              \<longrightarrow> callingLineIdentification (snd (connect k))))"
  using connect_clip_refused [of m a1 a2 a3 a4 w b1 b2 b3 b4 clip cvhu rs]
    connect_crc_refused [of n a1 a2 a3 a4 w b1 b2 b3 b4 clip' crc cvhu rs]
    connect_crc_only_after_clip [of k]
  unfolding crc_only_after_clip_def by blast

theorem connect_optional_steps_witness:
  "refused [''+CME ERROR: 3''] \<and> accepted [''OK'']
   \<and> connect (init_GsmModem
        [Lines [''OK''], Lines [''OK''], Lines [''OK''], Lines [''OK''], Lines [''ERROR''],
         Lines [''OK''], Lines [''OK''], Lines [''OK''], Lines [''OK''],
         Lines [''+CME ERROR: 3''], Lines [''OK'']]) =
      (Inr (),
       (init_GsmModem [])\<lparr>trace :=
           [Logged Debug ''Connecting to modem on port {} at {}bps'',
            Sent (''ATZ'' @ [CHR 0x0D]), Sent (''ATE0'' @ [CHR 0x0D]),
            Sent (''AT+CFUN=1'' @ [CHR 0x0D]), Sent (''AT+CMEE=1'' @ [CHR 0x0D]),
            Sent (''AT+WIND=0'' @ [CHR 0x0D]), Sent (''AT+CMGF=1'' @ [CHR 0x0D]),
            Sent (''AT+CSMP=49,167'' @ [CHR 0x0D]),
            Sent (''AT+CPMS=\"SM\",\"SM\",\"SR\"'' @ [CHR 0x0D]),
            Sent (''AT+CNMI=2,1,0,2'' @ [CHR 0x0D]),
            Sent (''AT+CLIP=1'' @ [CHR 0x0D]),
            Logged Warn
              ''Incoming call calling line identification (caller ID) not supported by modem. Error: {}'',
            Sent (''AT+CVHU=0'' @ [CHR 0x0D])]\<rparr>)
   \<and> connect (init_GsmModem
        [Lines [''OK''], Lines [''OK''], Lines [''OK''], Lines [''OK''], Lines [''ERROR''],
         Lines [''OK''], Lines [''OK''], Lines [''OK''], Lines [''OK''],
         Lines [''OK''], Lines [''ERROR''], Lines [''OK'']]) =
      (Inr (),
       (init_GsmModem [])\<lparr>callingLineIdentification := True, trace :=
           [Logged Debug ''Connecting to modem on port {} at {}bps'',
            Sent (''ATZ'' @ [CHR 0x0D]), Sent (''ATE0'' @ [CHR 0x0D]),
            Sent (''AT+CFUN=1'' @ [CHR 0x0D]), Sent (''AT+CMEE=1'' @ [CHR 0x0D]),
            Sent (''AT+WIND=0'' @ [CHR 0x0D]), Sent (''AT+CMGF=1'' @ [CHR 0x0D]),
            Sent (''AT+CSMP=49,167'' @ [CHR 0x0D]),
            Sent (''AT+CPMS=\"SM\",\"SM\",\"SR\"'' @ [CHR 0x0D]),
            Sent (''AT+CNMI=2,1,0,2'' @ [CHR 0x0D]),
            Sent (''AT+CLIP=1'' @ [CHR 0x0D]), Sent (''AT+CRC=1'' @ [CHR 0x0D]),
            Logged Info
              ''Extended format incoming call indication not supported by modem. Error: {}'',
            Sent (''AT+CVHU=0'' @ [CHR 0x0D])]\<rparr>)"
  using connect_optional_steps [of
      "init_GsmModem
        [Lines [''OK''], Lines [''OK''], Lines [''OK''], Lines [''OK''], Lines [''ERROR''],
         Lines [''OK''], Lines [''OK''], Lines [''OK''], Lines [''OK''],
         Lines [''+CME ERROR: 3''], Lines [''OK'']]"
      "[''OK'']" "[''OK'']" "[''OK'']" "[''OK'']" "[''ERROR'']" "[''OK'']" "[''OK'']" "[''OK'']"
      "[''OK'']" "[''+CME ERROR: 3'']" "[''OK'']" "[]"
      "init_GsmModem
        [Lines [''OK''], Lines [''OK''], Lines [''OK''], Lines [''OK''], Lines [''ERROR''],
         Lines [''OK''], Lines [''OK''], Lines [''OK''], Lines [''OK''],
         Lines [''OK''], Lines [''ERROR''], Lines [''OK'']]"
      "[''OK'']" "[''ERROR'']"]
  by (simp add: accepted_def refused_def init_GsmModem_def)

section \<open>What the patterns match\<close>

lemma self_in_star: "s \<in> set (star p s)"
  by (cases s) simp_all

lemma star_set: "r \<in> set (star p s) \<longleftrightarrow> (\<exists>xs. s = xs @ r \<and> list_all p xs)"
proof (induction s)
  case Nil
  then show ?case by auto
next
  case (Cons c cs)
  show ?case
  proof
    assume "r \<in> set (star p (c # cs))"
    then consider "r = c # cs" | "p c" "r \<in> set (star p cs)"
      by (auto split: if_splits)
    then show "\<exists>xs. c # cs = xs @ r \<and> list_all p xs"
    proof cases
      case 1
      then show ?thesis by (intro exI [of _ "[]"]) simp
    next
      case 2
      then obtain xs where "cs = xs @ r" "list_all p xs" using Cons.IH by auto
      with 2 show ?thesis by (intro exI [of _ "c # xs"]) simp
    qed
  next
    assume "\<exists>xs. c # cs = xs @ r \<and> list_all p xs"
    then obtain xs where xs: "c # cs = xs @ r" "list_all p xs" by auto
    show "r \<in> set (star p (c # cs))"
    proof (cases xs)
      case Nil
      with xs show ?thesis using self_in_star [of "c # cs" p] by simp
    next
      case (Cons x xs')
      with xs have "p c" "cs = xs' @ r" "list_all p xs'" by auto
      then show ?thesis using Cons.IH by auto
    qed
  qed
qed

lemma plus_rests_set:
  "r \<in> set (plus_rests p s) \<longleftrightarrow> (\<exists>xs. s = xs @ r \<and> xs \<noteq> [] \<and> list_all p xs)"
proof (cases s)
  case Nil
  then show ?thesis by auto
next
  case (Cons c cs)
  show ?thesis
  proof
    assume "r \<in> set (plus_rests p s)"
    with Cons obtain xs where "p c" "cs = xs @ r" "list_all p xs"
      by (auto simp: star_set split: if_splits)
    with Cons show "\<exists>xs. s = xs @ r \<and> xs \<noteq> [] \<and> list_all p xs"
      by (intro exI [of _ "c # xs"]) simp
  next
    assume "\<exists>xs. s = xs @ r \<and> xs \<noteq> [] \<and> list_all p xs"
    then obtain x xs where "s = (x # xs) @ r" "list_all p (x # xs)"
      by (metis list.exhaust)
    with Cons show "r \<in> set (plus_rests p s)"
      by (auto simp: star_set)
  qed
qed

lemma matches_Eps: "matches Eps s g r \<longleftrightarrow> g = [] \<and> r = s"
  by (auto simp: matches_def)

lemma matches_Sym: "matches (Sym p) s g r \<longleftrightarrow> g = [] \<and> (\<exists>c. s = c # r \<and> p c)"
  by (auto simp: matches_def split: list.splits)

lemma matches_Seq:
  "matches (Seq a b) s g r \<longleftrightarrow>
     (\<exists>g1 r1 g2. matches a s g1 r1 \<and> matches b r1 g2 r \<and> g = g1 @ g2)"
proof -
  have "(g, r) \<in> set (rmatch (Seq a b) s) \<longleftrightarrow>
      (\<exists>x \<in> set (rmatch a s). \<exists>y \<in> set (rmatch b (snd x)). (g, r) = (fst x @ fst y, snd y))"
    by (auto simp: case_prod_beta image_iff)
  then show ?thesis
    unfolding matches_def by (metis fst_conv snd_conv prod.collapse)
qed

lemma matches_Alt: "matches (Alt a b) s g r \<longleftrightarrow> matches a s g r \<or> matches b s g r"
  by (auto simp: matches_def)

lemma matches_Star: "matches (Star p) s g r \<longleftrightarrow> g = [] \<and> (\<exists>xs. s = xs @ r \<and> list_all p xs)"
  by (auto simp: matches_def star_set)

lemma matches_Plus:
  "matches (Plus p) s g r \<longleftrightarrow> g = [] \<and> (\<exists>xs. s = xs @ r \<and> xs \<noteq> [] \<and> list_all p xs)"
  by (auto simp: matches_def plus_rests_set)

lemma matches_Opt:
  "matches (Opt p) s g r \<longleftrightarrow> g = [] \<and> (r = s \<or> (\<exists>c. s = c # r \<and> p c))"
  by (auto simp: matches_def split: list.splits)

lemma matches_Group:
  "matches (Group k a) s g r \<longleftrightarrow>
     (\<exists>g1. matches a s g1 r \<and> g = (k, take (length s - length r) s) # g1)"
  by (auto simp: matches_def)

lemma matches_Eos: "matches Eos s g r \<longleftrightarrow> g = [] \<and> r = s \<and> (s = [] \<or> s = [CHR 0x0A])"
  by (auto simp: matches_def)

lemma matches_lit: "matches (lit w) s g r \<longleftrightarrow> g = [] \<and> s = w @ r"
proof (induction w arbitrary: s g r)
  case Nil
  then show ?case by (simp add: lit_def seqs_def matches_Eps) blast
next
  case (Cons c w)
  have "matches (lit (c # w)) s g r \<longleftrightarrow>
      (\<exists>g1 r1 g2. matches (Sym (\<lambda>d. d = c)) s g1 r1 \<and> matches (lit w) r1 g2 r \<and> g = g1 @ g2)"
    by (simp add: lit_def seqs_def matches_Seq)
  also have "\<dots> \<longleftrightarrow> g = [] \<and> s = (c # w) @ r"
    unfolding Cons.IH matches_Sym by auto
  finally show ?case .
qed

lemma matches_seqs_Nil: "matches (seqs []) s g r \<longleftrightarrow> g = [] \<and> r = s"
  by (simp add: seqs_def matches_Eps)

lemma matches_seqs_Cons:
  "matches (seqs (a # as)) s g r \<longleftrightarrow>
     (\<exists>g1 r1 g2. matches a s g1 r1 \<and> matches (seqs as) r1 g2 r \<and> g = g1 @ g2)"
  by (simp add: seqs_def matches_Seq)

lemmas matches_simps =
  matches_Eps matches_Sym matches_Seq matches_Alt matches_Star matches_Plus matches_Opt
  matches_Group matches_Eos matches_lit matches_seqs_Nil matches_seqs_Cons

lemma re_match_Some: "re_match r s = Some g \<Longrightarrow> \<exists>rest. matches r s g rest"
  by (auto simp: re_match_def matches_def split: list.splits)

lemma re_match_None: "re_match r s = None \<longleftrightarrow> (\<forall>g rest. \<not> matches r s g rest)"
  by (auto simp: re_match_def matches_def split: list.splits)

lemma re_match_unique:
  assumes "matches r s g0 rest0" and "\<And>g rest. matches r s g rest \<Longrightarrow> g = g0"
  shows "re_match r s = Some g0"
proof (cases "re_match r s")
  case None
  with assms(1) show ?thesis by (simp add: re_match_None)
next
  case (Some g)
  with re_match_Some assms(2) show ?thesis by blast
qed

lemma rmatch_suffix: "(g, r) \<in> set (rmatch a s) \<Longrightarrow> \<exists>xs. s = xs @ r"
proof (induction a arbitrary: s g r)
  case (Seq a b)
  then obtain g1 r1 g2 where "(g1, r1) \<in> set (rmatch a s)" "(g2, r) \<in> set (rmatch b r1)"
    using matches_Seq [of a b s g r] by (auto simp: matches_def)
  with Seq.IH show ?case by (metis append.assoc)
next
  case (Star p)
  then show ?case by (auto simp: star_set)
next
  case (Plus p)
  then show ?case by (auto simp: plus_rests_set)
next
  case (Opt p)
  then show ?case by (auto split: list.splits if_splits)
qed (auto split: list.splits if_splits)

lemma matches_Group_app:
  "matches (Group k a) s g r \<longleftrightarrow>
     (\<exists>xs g1. s = xs @ r \<and> matches a (xs @ r) g1 r \<and> g = (k, xs) # g1)"
proof
  assume "matches (Group k a) s g r"
  then obtain g1 where 1: "matches a s g1 r" "g = (k, take (length s - length r) s) # g1"
    by (auto simp: matches_Group)
  from 1(1) have "\<exists>xs. s = xs @ r" unfolding matches_def by (rule rmatch_suffix)
  then obtain xs where "s = xs @ r" by blast
  with 1 show "\<exists>xs g1. s = xs @ r \<and> matches a (xs @ r) g1 r \<and> g = (k, xs) # g1"
    by auto
next
  assume "\<exists>xs g1. s = xs @ r \<and> matches a (xs @ r) g1 r \<and> g = (k, xs) # g1"
  then show "matches (Group k a) s g r" by (auto simp: matches_Group)
qed

lemma matches_seqs_lit:
  "matches (seqs (lit w # rs)) s g r \<longleftrightarrow> (\<exists>s'. s = w @ s' \<and> matches (seqs rs) s' g r)"
  by (simp add: matches_seqs_Cons matches_lit)

lemma matches_seqs_Sym:
  "matches (seqs (Sym p # rs)) s g r \<longleftrightarrow> (\<exists>c s'. s = c # s' \<and> p c \<and> matches (seqs rs) s' g r)"
  by (auto simp: matches_seqs_Cons matches_Sym)

lemma matches_seqs_Star:
  "matches (seqs (Star p # rs)) s g r \<longleftrightarrow>
     (\<exists>xs s'. s = xs @ s' \<and> list_all p xs \<and> matches (seqs rs) s' g r)"
  by (auto simp: matches_seqs_Cons matches_Star)

lemma matches_seqs_Plus:
  "matches (seqs (Plus p # rs)) s g r \<longleftrightarrow>
     (\<exists>xs s'. s = xs @ s' \<and> xs \<noteq> [] \<and> list_all p xs \<and> matches (seqs rs) s' g r)"
  by (auto simp: matches_seqs_Cons matches_Plus)

lemma matches_seqs_Eos:
  "matches (seqs (Eos # rs)) s g r \<longleftrightarrow>
     ((s = [] \<or> s = [CHR 0x0A]) \<and> matches (seqs rs) s g r)"
  by (auto simp: matches_seqs_Cons matches_Eos)

lemma matches_seqs_Group_Plus:
  "matches (seqs (Group k (Plus p) # rs)) s g r \<longleftrightarrow>
     (\<exists>xs s' g2. s = xs @ s' \<and> xs \<noteq> [] \<and> list_all p xs \<and> matches (seqs rs) s' g2 r
        \<and> g = (k, xs) # g2)"
  by (auto simp: matches_seqs_Cons matches_Plus matches_Group)

lemma cm_code_part_matches: "matches (seqs [Group 2 (Plus digit), Eos]) s g r \<longleftrightarrow>
   (\<exists>ds. s = ds @ r \<and> ds \<noteq> [] \<and> list_all digit ds \<and> (r = [] \<or> r = [CHR 0x0A]) \<and> g = [(2, ds)])"
  by (auto simp: matches_seqs_Group_Plus matches_seqs_Eos matches_seqs_Nil)

lemma cm_kind_part_matches: "matches (Group 1 (seqs [lit ''CM'', Sym (\<lambda>c. c \<in> set ''ES'')])) s g r \<longleftrightarrow>
   (\<exists>x. s = ''CM'' @ [x] @ r \<and> (x = CHR ''E'' \<or> x = CHR ''S'') \<and> g = [(1, ''CM'' @ [x])])"
  by (auto simp: matches_Group_app matches_seqs_lit matches_seqs_Sym matches_seqs_Nil)

lemma cm_tail_matches: "matches (seqs [lit '' ERROR: '', Group 2 (Plus digit), Eos]) s g r \<longleftrightarrow>
   (\<exists>ds. s = '' ERROR: '' @ ds @ r \<and> ds \<noteq> [] \<and> list_all digit ds
      \<and> (r = [] \<or> r = [CHR 0x0A]) \<and> g = [(2, ds)])"
  unfolding matches_seqs_lit cm_code_part_matches by auto

lemma CM_ERROR_REGEX_matches:
  "matches CM_ERROR_REGEX s g r \<longleftrightarrow>
     (\<exists>x ds. s = ''+CM'' @ [x] @ '' ERROR: '' @ ds @ r \<and> (x = CHR ''E'' \<or> x = CHR ''S'')
        \<and> ds \<noteq> [] \<and> list_all digit ds \<and> (r = [] \<or> r = [CHR 0x0A])
        \<and> g = [(1, ''CM'' @ [x]), (2, ds)])"
proof
  assume "matches CM_ERROR_REGEX s g r"
  then obtain s1 where s: "s = ''+'' @ s1"
    and m1: "matches (seqs [Group 1 (seqs [lit ''CM'', Sym (\<lambda>c. c \<in> set ''ES'')]),
               lit '' ERROR: '', Group 2 (Plus digit), Eos]) s1 g r"
    unfolding CM_ERROR_REGEX_def matches_seqs_lit by blast
  from m1 obtain g1 r1 g2 where
    a: "matches (Group 1 (seqs [lit ''CM'', Sym (\<lambda>c. c \<in> set ''ES'')])) s1 g1 r1"
    and b: "matches (seqs [lit '' ERROR: '', Group 2 (Plus digit), Eos]) r1 g2 r"
    and g: "g = g1 @ g2"
    unfolding matches_seqs_Cons [of "Group 1 (seqs [lit ''CM'', Sym (\<lambda>c. c \<in> set ''ES'')])"]
    by blast
  from a obtain x where x: "s1 = ''CM'' @ [x] @ r1" "x = CHR ''E'' \<or> x = CHR ''S''"
    "g1 = [(1, ''CM'' @ [x])]"
    unfolding cm_kind_part_matches by blast
  from b obtain ds where ds: "r1 = '' ERROR: '' @ ds @ r" "ds \<noteq> []" "list_all digit ds"
    "r = [] \<or> r = [CHR 0x0A]" "g2 = [(2, ds)]"
    unfolding cm_tail_matches by blast
  show "\<exists>x ds. s = ''+CM'' @ [x] @ '' ERROR: '' @ ds @ r \<and> (x = CHR ''E'' \<or> x = CHR ''S'')
        \<and> ds \<noteq> [] \<and> list_all digit ds \<and> (r = [] \<or> r = [CHR 0x0A])
        \<and> g = [(1, ''CM'' @ [x]), (2, ds)]"
    using s g x ds by (intro exI [of _ x] exI [of _ ds]) simp
next
  assume "\<exists>x ds. s = ''+CM'' @ [x] @ '' ERROR: '' @ ds @ r \<and> (x = CHR ''E'' \<or> x = CHR ''S'')
        \<and> ds \<noteq> [] \<and> list_all digit ds \<and> (r = [] \<or> r = [CHR 0x0A])
        \<and> g = [(1, ''CM'' @ [x]), (2, ds)]"
  then obtain x ds where f: "s = ''+CM'' @ [x] @ '' ERROR: '' @ ds @ r"
    "x = CHR ''E'' \<or> x = CHR ''S''" "ds \<noteq> []" "list_all digit ds" "r = [] \<or> r = [CHR 0x0A]"
    "g = [(1, ''CM'' @ [x]), (2, ds)]"
    by blast
  have a: "matches (Group 1 (seqs [lit ''CM'', Sym (\<lambda>c. c \<in> set ''ES'')]))
      (''CM'' @ [x] @ '' ERROR: '' @ ds @ r) [(1, ''CM'' @ [x])] ('' ERROR: '' @ ds @ r)"
    unfolding cm_kind_part_matches using f(2) by blast
  have b: "matches (seqs [lit '' ERROR: '', Group 2 (Plus digit), Eos])
      ('' ERROR: '' @ ds @ r) [(2, ds)] r"
    unfolding cm_tail_matches using f(3-5) by blast
  have "matches (seqs [Group 1 (seqs [lit ''CM'', Sym (\<lambda>c. c \<in> set ''ES'')]),
               lit '' ERROR: '', Group 2 (Plus digit), Eos])
      (''CM'' @ [x] @ '' ERROR: '' @ ds @ r) g r"
    unfolding matches_seqs_Cons [of "Group 1 (seqs [lit ''CM'', Sym (\<lambda>c. c \<in> set ''ES'')])"]
    using a b f(6) by (intro exI conjI) auto
  then show "matches CM_ERROR_REGEX s g r"
    unfolding CM_ERROR_REGEX_def matches_seqs_lit
    using f(1) by (intro exI [of _ "''CM'' @ [x] @ '' ERROR: '' @ ds @ r"]) simp
qed

section \<open>Errors of a command\<close>

lemma newline_not_digit: "\<not> digit (CHR 0x0A)"
  by (simp add: digit_def)

lemma digit_not_newline: "list_all digit ds \<Longrightarrow> CHR 0x0A \<notin> set ds"
  using newline_not_digit by (induction ds) (simp_all, metis)

lemma digits_then_eol:
  assumes "list_all digit ds" "list_all digit ds'"
    and "e = [] \<or> e = [CHR 0x0A]" "e' = [] \<or> e' = [CHR 0x0A]"
    and "ds @ e = ds' @ e'"
  shows "ds = ds' \<and> e = e'"
proof -
  note n1 = digit_not_newline [OF assms(1)] and n2 = digit_not_newline [OF assms(2)]
  from assms(3,4) consider
    (a) "e = []" "e' = []" | (b) "e = []" "e' = [CHR 0x0A]"
    | (c) "e = [CHR 0x0A]" "e' = []" | (d) "e = [CHR 0x0A]" "e' = [CHR 0x0A]"
    by blast
  then show ?thesis
  proof cases
    case a
    with assms(5) show ?thesis by simp
  next
    case b
    with assms(5) have "ds = ds' @ [CHR 0x0A]" by simp
    then have "CHR 0x0A \<in> set ds" by simp
    with n1 show ?thesis by simp
  next
    case c
    with assms(5) have "ds' = ds @ [CHR 0x0A]" by simp
    then have "CHR 0x0A \<in> set ds'" by simp
    with n2 show ?thesis by simp
  next
    case d
    with assms(5) show ?thesis by simp
  qed
qed

lemma CM_ERROR_REGEX_match_x:
  assumes "x = CHR ''E'' \<or> x = CHR ''S''" "ds \<noteq> []" "list_all digit ds"
    and "e = [] \<or> e = [CHR 0x0A]"
  shows "re_match CM_ERROR_REGEX (''+CM'' @ [x] @ '' ERROR: '' @ ds @ e)
           = Some [(1, ''CM'' @ [x]), (2, ds)]"
proof (rule re_match_unique)
  show "matches CM_ERROR_REGEX (''+CM'' @ [x] @ '' ERROR: '' @ ds @ e)
          [(1, ''CM'' @ [x]), (2, ds)] e"
    unfolding CM_ERROR_REGEX_matches using assms
    by (intro exI [of _ x] exI [of _ ds]) simp
next
  fix g rest
  assume "matches CM_ERROR_REGEX (''+CM'' @ [x] @ '' ERROR: '' @ ds @ e) g rest"
  then obtain y ds' where m:
    "''+CM'' @ [x] @ '' ERROR: '' @ ds @ e = ''+CM'' @ [y] @ '' ERROR: '' @ ds' @ rest"
    "list_all digit ds'" "rest = [] \<or> rest = [CHR 0x0A]" "g = [(1, ''CM'' @ [y]), (2, ds')]"
    unfolding CM_ERROR_REGEX_matches by blast
  from m(1) have "y = x" "ds @ e = ds' @ rest" by simp_all
  with digits_then_eol [OF assms(3) m(2) assms(4) m(3)] m(4)
  show "g = [(1, ''CM'' @ [x]), (2, ds)]" by simp
qed

lemma CM_ERROR_REGEX_match:
  assumes "k = ''CME'' \<or> k = ''CMS''" "ds \<noteq> []" "list_all digit ds"
    and "e = [] \<or> e = [CHR 0x0A]"
  shows "re_match CM_ERROR_REGEX (''+'' @ k @ '' ERROR: '' @ ds @ e) = Some [(1, k), (2, ds)]"
  using assms(1)
proof
  assume "k = ''CME''"
  with CM_ERROR_REGEX_match_x [of "CHR ''E''" ds e] assms(2-4) show ?thesis by simp
next
  assume "k = ''CMS''"
  with CM_ERROR_REGEX_match_x [of "CHR ''S''" ds e] assms(2-4) show ?thesis by simp
qed

lemma cm_error_line_match:
  assumes "cm_error_line k ds l"
  shows "re_match CM_ERROR_REGEX l = Some [(1, k), (2, ds)]"
proof -
  from assms have k: "k = ''CME'' \<or> k = ''CMS''" and ds: "ds \<noteq> []" "list_all digit ds"
    and l: "l = ''+'' @ k @ '' ERROR: '' @ ds @ [] \<or> l = ''+'' @ k @ '' ERROR: '' @ ds @ [CHR 0x0A]"
    by (simp_all add: cm_error_line_def)
  from l show ?thesis
  proof
    assume "l = ''+'' @ k @ '' ERROR: '' @ ds @ []"
    with CM_ERROR_REGEX_match [OF k ds, of "[]"] show ?thesis by simp
  next
    assume "l = ''+'' @ k @ '' ERROR: '' @ ds @ [CHR 0x0A]"
    with CM_ERROR_REGEX_match [OF k ds, of "[CHR 0x0A]"] show ?thesis by simp
  qed
qed

lemma no_cm_error_line_no_match:
  assumes "\<not> (\<exists>k ds. cm_error_line k ds l)"
  shows "re_match CM_ERROR_REGEX l = None"
proof (rule ccontr)
  assume "re_match CM_ERROR_REGEX l \<noteq> None"
  then obtain g r where "matches CM_ERROR_REGEX l g r"
    unfolding re_match_None by blast
  then obtain x ds where m: "l = ''+CM'' @ [x] @ '' ERROR: '' @ ds @ r"
    "x = CHR ''E'' \<or> x = CHR ''S''" "ds \<noteq> []" "list_all digit ds" "r = [] \<or> r = [CHR 0x0A]"
    unfolding CM_ERROR_REGEX_matches by blast
  have "cm_error_line (''CM'' @ [x]) ds l"
    unfolding cm_error_line_def using m by (elim disjE; simp)
  with assms show False by blast
qed

text \<open>
  C1. A command that waits for its response and gets lines whose last contains
  \<^verbatim>\<open>ERROR\<close>. With \<^verbatim>\<open>parseError\<close> on: if that line is a structured error line of kind
  \<open>k\<close> with digits \<open>ds\<close>, the command fails with CommandError of type \<open>k\<close> (CME or
  CMS) and code \<^verbatim>\<open>int(ds)\<close>; if it is no structured error line, the command fails with
  the CommandError that has no type and no code. With \<^verbatim>\<open>parseError\<close> off, the same lines
  are returned, the error line included, and nothing is raised. In each case the data
  were handed to the transport and the reply was consumed.
\<close>

theorem write_error_classification:
  assumes "replies m = Lines ls # rs" "ls \<noteq> []" "contains ''ERROR'' (last ls)"
  shows "(cm_error_line k ds (last ls) \<longrightarrow>
            write_GsmModem d True True t m =
              (Inl (CommandError (Some k) (Some (py_int ds))),
               m\<lparr>replies := rs, trace := trace m @ [Sent (d @ t)]\<rparr>))
       \<and> (\<not> (\<exists>k ds. cm_error_line k ds (last ls)) \<longrightarrow>
            write_GsmModem d True True t m =
              (Inl (CommandError None None),
               m\<lparr>replies := rs, trace := trace m @ [Sent (d @ t)]\<rparr>))
       \<and> write_GsmModem d True False t m =
            (Inr (Some ls), m\<lparr>replies := rs, trace := trace m @ [Sent (d @ t)]\<rparr>)"
proof -
  obtain l ls' where ls: "ls = l # ls'" using assms(2) by (cases ls) auto
  have a: "write_GsmModem d True True t m =
      (Inl (CommandError (Some k) (Some (py_int ds))),
       m\<lparr>replies := rs, trace := trace m @ [Sent (d @ t)]\<rparr>)"
    if "cm_error_line k ds (last ls)"
    using assms(1,3) cm_error_line_match [OF that] unfolding ls
    by (simp add: channel_defs group_def)
  have b: "write_GsmModem d True True t m =
      (Inl (CommandError None None), m\<lparr>replies := rs, trace := trace m @ [Sent (d @ t)]\<rparr>)"
    if "\<not> (\<exists>k ds. cm_error_line k ds (last ls))"
    using assms(1,3) no_cm_error_line_no_match [OF that] unfolding ls
    by (simp add: channel_defs)
  have c: "write_GsmModem d True False t m =
      (Inr (Some ls), m\<lparr>replies := rs, trace := trace m @ [Sent (d @ t)]\<rparr>)"
    using assms(1) unfolding ls by (simp add: channel_defs)
  from a b c show ?thesis by blast
qed

theorem write_error_classification_witness:
  "cm_error_line ''CME'' ''10'' ''+CME ERROR: 10''
   \<and> contains ''ERROR'' ''+CME ERROR: 10''
   \<and> write_GsmModem ''AT+CPIN?'' True True [CHR 0x0D] (init_GsmModem [Lines [''+CME ERROR: 10'']])
      = (Inl (CommandError (Some ''CME'') (Some 10)),
         (init_GsmModem [])\<lparr>trace := [Sent (''AT+CPIN?'' @ [CHR 0x0D])]\<rparr>)
   \<and> write_GsmModem ''AT+CPIN?'' True False [CHR 0x0D] (init_GsmModem [Lines [''+CME ERROR: 10'']])
      = (Inr (Some [''+CME ERROR: 10'']),
         (init_GsmModem [])\<lparr>trace := [Sent (''AT+CPIN?'' @ [CHR 0x0D])]\<rparr>)"
  using write_error_classification [of "init_GsmModem [Lines [''+CME ERROR: 10'']]"
      "[''+CME ERROR: 10'']" "[]" "''CME''" "''10''" "''AT+CPIN?''" "[CHR 0x0D]"]
  by (simp add: cm_error_line_def digit_def init_GsmModem_def py_int_def)

section \<open>Signal strength\<close>

lemma takeWhile_run:
  "list_all p xs \<Longrightarrow> a = [] \<or> \<not> p (hd a) \<Longrightarrow> takeWhile p (xs @ a) = xs"
  by (induction xs) (auto simp: takeWhile_eq_Nil_iff hd_conv_nth dest: hd_in_set)

lemma run_unique:
  assumes "list_all p xs" "list_all p ys" "a = [] \<or> \<not> p (hd a)" "b = [] \<or> \<not> p (hd b)"
    and "xs @ a = ys @ b"
  shows "xs = ys \<and> a = b"
proof -
  have "xs = takeWhile p (xs @ a)" using takeWhile_run [OF assms(1,3)] by simp
  also have "\<dots> = takeWhile p (ys @ b)" using assms(5) by simp
  also have "\<dots> = ys" using takeWhile_run [OF assms(2,4)] by simp
  finally have "xs = ys" .
  with assms(5) show ?thesis by simp
qed

lemma digit_not_space: "digit c \<Longrightarrow> \<not> space c"
  by (simp add: digit_def space_def, elim disjE, simp_all)

lemma comma_not_digit: "\<not> digit (CHR '','')"
  by (simp add: digit_def)

lemma csq_value_part_matches:
  "matches (seqs [Group 1 (Plus digit), lit '','']) s g r \<longleftrightarrow>
     (\<exists>ds. s = ds @ '','' @ r \<and> ds \<noteq> [] \<and> list_all digit ds \<and> g = [(1, ds)])"
  by (auto simp: matches_seqs_Group_Plus matches_seqs_lit matches_seqs_Nil)

lemma CSQ_REGEX_matches:
  "matches CSQ_REGEX s g r \<longleftrightarrow>
     (\<exists>ws ds. s = ''+CSQ:'' @ ws @ ds @ '','' @ r \<and> list_all space ws \<and> ds \<noteq> []
        \<and> list_all digit ds \<and> g = [(1, ds)])"
  unfolding CSQ_REGEX_def matches_seqs_lit matches_seqs_Star csq_value_part_matches
  by (intro iffI; elim exE conjE; (intro exI conjI)?; simp?)

lemma digits_head:
  assumes "ds \<noteq> []" "list_all digit ds"
  shows "ds @ a = [] \<or> \<not> space (hd (ds @ a))"
proof -
  from assms obtain c cs where "ds = c # cs" "digit c" by (cases ds) auto
  then show ?thesis using digit_not_space by simp
qed

lemma csq_line_match:
  assumes "csq_line ws ds rest l"
  shows "re_match CSQ_REGEX l = Some [(1, ds)]"
proof (rule re_match_unique)
  from assms have l: "l = ''+CSQ:'' @ ws @ ds @ '','' @ rest" and ws: "list_all space ws"
    and ds: "ds \<noteq> []" "list_all digit ds"
    by (simp_all add: csq_line_def)
  show "matches CSQ_REGEX l [(1, ds)] rest"
    unfolding CSQ_REGEX_matches using l ws ds by (intro exI [of _ ws] exI [of _ ds]) simp
  fix g r
  assume "matches CSQ_REGEX l g r"
  then obtain ws' ds' where m: "l = ''+CSQ:'' @ ws' @ ds' @ '','' @ r" "list_all space ws'"
    "ds' \<noteq> []" "list_all digit ds'" "g = [(1, ds')]"
    unfolding CSQ_REGEX_matches by blast
  from l m(1) have e: "ws @ (ds @ '','' @ rest) = ws' @ (ds' @ '','' @ r)" by simp
  have "ws = ws' \<and> ds @ '','' @ rest = ds' @ '','' @ r"
    by (rule run_unique [OF ws m(2) digits_head [OF ds] digits_head [OF m(3,4)] e])
  then have e2: "ds @ ('','' @ rest) = ds' @ ('','' @ r)" by simp
  have "ds = ds' \<and> '','' @ rest = '','' @ r"
    by (rule run_unique [OF ds(2) m(4) _ _ e2]) (simp_all add: comma_not_digit)
  with m(5) show "g = [(1, ds)]" by simp
qed

lemma no_csq_line_no_match:
  assumes "\<not> (\<exists>ws ds rest. csq_line ws ds rest l)"
  shows "re_match CSQ_REGEX l = None"
proof (rule ccontr)
  assume "re_match CSQ_REGEX l \<noteq> None"
  then obtain g r where "matches CSQ_REGEX l g r"
    unfolding re_match_None by blast
  then obtain ws ds where "l = ''+CSQ:'' @ ws @ ds @ '','' @ r" "list_all space ws"
    "ds \<noteq> []" "list_all digit ds"
    unfolding CSQ_REGEX_matches by blast
  then have "csq_line ws ds r l" by (simp add: csq_line_def)
  with assms show False by blast
qed

text \<open>
  C6. \<^verbatim>\<open>signalStrength\<close> sends \<^verbatim>\<open>AT+CSQ\<close>; let the command succeed (the last line
  of the response has no \<^verbatim>\<open>ERROR\<close>). If the first line is \<^verbatim>\<open>+CSQ:\<close>, blanks, digits, a
  comma and anything, the result is the number the digits spell, but \<open>-1\<close> when that number
  is 99; so 99 gives \<open>-1\<close> and every value from 0 to 31 comes back unchanged. If the first
  line is not of that form, the result is the CommandError without type and code.
\<close>

theorem signalStrength_parsed:
  assumes "replies m = Lines (l # ls) # rs" "\<not> contains ''ERROR'' (last (l # ls))"
  shows "(csq_line ws ds rest l \<longrightarrow>
            signalStrength m =
              (Inr (if py_int ds = 99 then - 1 else py_int ds),
               m\<lparr>replies := rs, trace := trace m @ [Sent (''AT+CSQ'' @ [CHR 0x0D])]\<rparr>))
       \<and> (csq_line ws ds rest l \<and> py_int ds = 99 \<longrightarrow> fst (signalStrength m) = Inr (- 1))
       \<and> (csq_line ws ds rest l \<and> 0 \<le> py_int ds \<and> py_int ds \<le> 31 \<longrightarrow>
            fst (signalStrength m) = Inr (py_int ds))
       \<and> (\<not> (\<exists>ws ds rest. csq_line ws ds rest l) \<longrightarrow>
            signalStrength m =
              (Inl (CommandError None None),
               m\<lparr>replies := rs, trace := trace m @ [Sent (''AT+CSQ'' @ [CHR 0x0D])]\<rparr>))"
proof -
  have a: "signalStrength m =
      (Inr (if py_int ds = 99 then - 1 else py_int ds),
       m\<lparr>replies := rs, trace := trace m @ [Sent (''AT+CSQ'' @ [CHR 0x0D])]\<rparr>)"
    if "csq_line ws ds rest l"
    using assms csq_line_match [OF that]
    by (simp add: signalStrength_def channel_defs group_def)
  have b: "signalStrength m =
      (Inl (CommandError None None),
       m\<lparr>replies := rs, trace := trace m @ [Sent (''AT+CSQ'' @ [CHR 0x0D])]\<rparr>)"
    if "\<not> (\<exists>ws ds rest. csq_line ws ds rest l)"
    using assms no_csq_line_no_match [OF that]
    by (simp add: signalStrength_def channel_defs)
  from a b show ?thesis by auto
qed

theorem signalStrength_parsed_witness:
  "csq_line '' '' ''21'' ''99'' ''+CSQ: 21,99'' \<and> py_int ''21'' = 21
   \<and> signalStrength (init_GsmModem [Lines [''+CSQ: 21,99'', ''OK'']])
      = (Inr 21, (init_GsmModem [])\<lparr>trace := [Sent (''AT+CSQ'' @ [CHR 0x0D])]\<rparr>)
   \<and> csq_line '' '' ''99'' ''99'' ''+CSQ: 99,99'' \<and> py_int ''99'' = 99
   \<and> fst (signalStrength (init_GsmModem [Lines [''+CSQ: 99,99'', ''OK'']])) = Inr (- 1)"
  using signalStrength_parsed [of "init_GsmModem [Lines [''+CSQ: 21,99'', ''OK'']]"
      "''+CSQ: 21,99''" "[''OK'']" "[]" "'' ''" "''21''" "''99''"]
    signalStrength_parsed [of "init_GsmModem [Lines [''+CSQ: 99,99'', ''OK'']]"
      "''+CSQ: 99,99''" "[''OK'']" "[]" "'' ''" "''99''" "''99''"]
  by (simp add: csq_line_def digit_def space_def init_GsmModem_def py_int_def)

section \<open>Caller identification\<close>

lemma clip_name_part_matches:
  "matches (Group 2 (Alt (seqs [lit ''\"'', Group 3 (Plus not_quote), lit ''\"''])
                         (seqs [lit '','', Star dot]))) s g r \<longleftrightarrow>
     (\<exists>n. s = ''\"'' @ n @ ''\"'' @ r \<and> n \<noteq> [] \<and> list_all not_quote n
          \<and> g = [(2, ''\"'' @ n @ ''\"''), (3, n)])
     \<or> (\<exists>xs. s = '','' @ xs @ r \<and> list_all dot xs \<and> g = [(2, '','' @ xs)])"
  unfolding matches_Group_app matches_Alt matches_seqs_lit matches_seqs_Group_Plus
    matches_seqs_Star matches_seqs_Nil
  by (intro iffI; elim exE conjE disjE; simp)

lemma capture_freeD: "capture_free a \<Longrightarrow> matches a s g r \<Longrightarrow> g = []"
  unfolding capture_free_def by blast

lemma capture_free_lit: "capture_free (lit w)"
  by (simp add: capture_free_def matches_lit)

lemma capture_free_Star: "capture_free (Star p)"
  by (simp add: capture_free_def matches_Star)

lemma capture_free_Plus: "capture_free (Plus p)"
  by (simp add: capture_free_def matches_Plus)

lemma capture_free_Opt: "capture_free (Opt p)"
  by (simp add: capture_free_def matches_Opt)

lemma capture_free_seqs:
  "(\<forall>a \<in> set as. capture_free a) \<Longrightarrow> capture_free (seqs as)"
proof (induction as)
  case Nil
  then show ?case by (simp add: capture_free_def matches_seqs_Nil)
next
  case (Cons a as)
  then have a: "capture_free a" and as: "capture_free (seqs as)" by simp_all
  show ?case
    unfolding capture_free_def matches_seqs_Cons
    using a as unfolding capture_free_def by fastforce
qed

lemma matches_suffix: "matches a s g r \<Longrightarrow> \<exists>xs. s = xs @ r"
  unfolding matches_def by (rule rmatch_suffix)

lemma peel_prefix:
  assumes "\<forall>a \<in> set as. capture_free a" "matches (seqs (as @ rs)) s g r"
  shows "\<exists>pre s'. s = pre @ s' \<and> matches (seqs rs) s' g r"
  using assms
proof (induction as arbitrary: s)
  case Nil
  then show ?case by (intro exI [of _ "[]"] exI [of _ s]) simp
next
  case (Cons a as)
  from Cons.prems(2) obtain g1 s1 g2 where
    1: "matches a s g1 s1" "matches (seqs (as @ rs)) s1 g2 r" "g = g1 @ g2"
    unfolding append_Cons matches_seqs_Cons by blast
  from Cons.prems(1) have "capture_free a" by simp
  from capture_freeD [OF this 1(1)] have "g1 = []" .
  with 1(3) have g: "g2 = g" by simp
  from matches_suffix [OF 1(1)] obtain xs where xs: "s = xs @ s1" by blast
  from Cons.IH [of s1] Cons.prems(1) 1(2) g obtain pre s' where
    "s1 = pre @ s'" "matches (seqs rs) s' g r" by auto
  with xs show ?case by (intro exI [of _ "xs @ pre"] exI [of _ s']) simp
qed

lemma CLIP_REGEX_name_part:
  assumes "matches CLIP_REGEX l g r"
  shows "\<exists>pre num s' g2. l = pre @ s' \<and> g = (1, num) # g2 \<and> (r = [] \<or> r = [CHR 0x0A])
           \<and> matches (Group 2 (Alt (seqs [lit ''\"'', Group 3 (Plus not_quote), lit ''\"''])
                                    (seqs [lit '','', Star dot]))) s' g2 r"
proof -
  let ?name = "Group 2 (Alt (seqs [lit ''\"'', Group 3 (Plus not_quote), lit ''\"''])
                            (seqs [lit '','', Star dot]))"
  let ?num = "Group 1 (seqs [Opt (\<lambda>c. c = CHR ''+''), Plus digit])"
  let ?mid = "[lit ''\"'', lit '','', Plus digit, lit '','', Star not_comma, lit '','',
               Star not_comma, lit '','']"
  have "matches (seqs ([lit ''+CLIP:'', Star space, lit ''\"''] @ (?num # ?mid @ [?name, Eos]))) l g r"
    using assms by (simp add: CLIP_REGEX_def)
  from peel_prefix [OF _ this] obtain p1 s1 where
    1: "l = p1 @ s1" "matches (seqs (?num # ?mid @ [?name, Eos])) s1 g r"
    by (auto simp: capture_free_lit capture_free_Star)
  from 1(2) obtain g1 s2 g2 where
    2: "matches ?num s1 g1 s2" "matches (seqs (?mid @ [?name, Eos])) s2 g2 r" "g = g1 @ g2"
    unfolding matches_seqs_Cons [of ?num] by blast
  from 2(1) obtain num gx where 3: "s1 = num @ s2" "g1 = (1, num) # gx"
    "matches (seqs [Opt (\<lambda>c. c = CHR ''+''), Plus digit]) (num @ s2) gx s2"
    unfolding matches_Group_app by blast
  have "capture_free (seqs [Opt (\<lambda>c. c = CHR ''+''), Plus digit])"
    by (rule capture_free_seqs) (simp add: capture_free_Opt capture_free_Plus)
  from capture_freeD [OF this 3(3)] have "gx = []" .
  with 2(3) 3(2) have g: "g = (1, num) # g2" by simp
  from peel_prefix [OF _ 2(2)] obtain p2 s3 where
    4: "s2 = p2 @ s3" "matches (seqs [?name, Eos]) s3 g2 r"
    by (auto simp: capture_free_lit capture_free_Star capture_free_Plus)
  from 4(2) obtain gn r1 ge where
    5: "matches ?name s3 gn r1" "matches (seqs [Eos]) r1 ge r" "g2 = gn @ ge"
    unfolding matches_seqs_Cons [of ?name] by blast
  from 5(2) have 6: "ge = []" "r1 = r" "r = [] \<or> r = [CHR 0x0A]"
    unfolding matches_seqs_Eos matches_seqs_Nil by auto
  show ?thesis
    using 1(1) 3(1) 4(1) g 5(1,3) 6
    by (intro exI [of _ "p1 @ num @ p2"] exI [of _ num] exI [of _ s3] exI [of _ gn]) simp
qed

lemma last_two_eq:
  assumes "xs @ [a, b] = ys @ [c, d]"
  shows "a = c \<and> b = d"
proof -
  from assms have "(xs @ [a]) @ [b] = (ys @ [c]) @ [d]" by simp
  then have "xs @ [a] = ys @ [c] \<and> b = d" by (simp only: append1_eq_conv)
  then show ?thesis by simp
qed

lemma clip_name_captured:
  assumes "re_match CLIP_REGEX l = Some g" "group g 3 = Some n"
  shows "n \<noteq> [] \<and> \<not> suffix ''\"\"'' l"
proof -
  from re_match_Some [OF assms(1)] obtain r where "matches CLIP_REGEX l g r" by blast
  from CLIP_REGEX_name_part [OF this] obtain pre num s' g2 where
    1: "l = pre @ s'" "g = (1, num) # g2" "r = [] \<or> r = [CHR 0x0A]"
    "matches (Group 2 (Alt (seqs [lit ''\"'', Group 3 (Plus not_quote), lit ''\"''])
                           (seqs [lit '','', Star dot]))) s' g2 r"
    by blast
  from 1(4) consider
    (quoted) n' where "s' = ''\"'' @ n' @ ''\"'' @ r" "n' \<noteq> []" "list_all not_quote n'"
      "g2 = [(2, ''\"'' @ n' @ ''\"''), (3, n')]"
    | (empty) xs where "g2 = [(2, '','' @ xs)]"
    unfolding clip_name_part_matches by blast
  then show ?thesis
  proof cases
    case empty
    with 1(2) assms(2) show ?thesis by (simp add: group_def)
  next
    case quoted
    with 1(2) assms(2) have n: "n' = n" by (simp add: group_def)
    from quoted(2) obtain b c where bc: "n' = b @ [c]"
      by (metis append_butlast_last_id)
    with quoted(3) have c: "c \<noteq> CHR 0x22" by (simp add: not_quote_def)
    have "\<not> suffix ''\"\"'' l"
    proof
      assume "suffix ''\"\"'' l"
      then obtain q where q: "l = q @ ''\"\"''" by (auto simp: suffix_def)
      from 1(3) show False
      proof
        assume "r = []"
        with 1(1) quoted(1) bc have "l = (pre @ ''\"'' @ b) @ [c, CHR 0x22]" by simp
        with q have "(pre @ ''\"'' @ b) @ [c, CHR 0x22] = q @ [CHR 0x22, CHR 0x22]" by simp
        then have "c = CHR 0x22" by (blast dest: last_two_eq)
        with c show False by simp
      next
        assume "r = [CHR 0x0A]"
        with 1(1) quoted(1) have "l = (pre @ ''\"'' @ n' @ ''\"'') @ [CHR 0x0A]" by simp
        with q have "(pre @ ''\"'' @ n' @ ''\"'') @ [CHR 0x0A] = (q @ ''\"'') @ [CHR 0x22]"
          by simp
        then have "CHR 0x0A = CHR 0x22" by (simp only: append1_eq_conv)
        then show False by simp
      qed
    qed
    with quoted(2) n show ?thesis by simp
  qed
qed

lemma locals_name_not_empty:
  "handleIncomingCall_locals lines m = Inr v \<Longrightarrow> callerName_var v \<noteq> Some []"
  by (auto simp: handleIncomingCall_locals_def
        split: list.splits sum.splits option.splits if_splits)

lemma locals_empty_quoted_name:
  assumes "suffix ''\"\"'' clipLine"
    "handleIncomingCall_locals (ringLine # clipLine # others) m = Inr v"
  shows "callerName_var v = None"
proof (cases "re_match CLIP_REGEX clipLine")
  case None
  with assms(2) show ?thesis
    by (auto simp: handleIncomingCall_locals_def split: sum.splits if_splits)
next
  case (Some g)
  have "group g 3 = None"
  proof (cases "group g 3")
    case (Some n)
    with clip_name_captured [OF \<open>re_match CLIP_REGEX clipLine = Some g\<close>] assms(1)
    show ?thesis by blast
  qed simp
  with Some assms(2) show ?thesis
    by (auto simp: handleIncomingCall_locals_def split: sum.splits if_splits)
qed

lemma locals_no_match:
  assumes "\<not> callingLineIdentification m \<or> re_match CLIP_REGEX clipLine = None"
    "handleIncomingCall_locals (ringLine # clipLine # others) m = Inr v"
  shows "callerNumber_var v = None \<and> ton_var v = Bound None \<and> callerName_var v = None"
  using assms
  by (auto simp: handleIncomingCall_locals_def split: sum.splits if_splits)

text \<open>
  C9, on the local variables of \<^verbatim>\<open>_handleIncomingCall\<close> after its parsing part. The
  caller name is never the empty string. For a caller-ID line that ends with an empty
  pair of quotes (the quoted name is empty) the name is absent. And when the caller-ID
  line does not match \<^verbatim>\<open>CLIP_REGEX\<close>, or calling-line identification is off, the number,
  the type of number and the name are all \<^verbatim>\<open>None\<close>.
\<close>

theorem caller_id_name_absent:
  "(handleIncomingCall_locals lines m = Inr v \<longrightarrow> callerName_var v \<noteq> Some [])
   \<and> (suffix ''\"\"'' clipLine
        \<and> handleIncomingCall_locals (ringLine # clipLine # others) m = Inr v
      \<longrightarrow> callerName_var v = None)
   \<and> ((\<not> callingLineIdentification m \<or> re_match CLIP_REGEX clipLine = None)
        \<and> handleIncomingCall_locals (ringLine # clipLine # others) m = Inr v
      \<longrightarrow> callerNumber_var v = None \<and> ton_var v = Bound None \<and> callerName_var v = None)"
  using locals_name_not_empty [of lines m v]
    locals_empty_quoted_name [of clipLine ringLine others m v]
    locals_no_match [of m clipLine ringLine others v]
  by blast

theorem caller_id_name_absent_witness:
  "suffix ''\"\"'' ''+CLIP: \"+27821234567\",145,,,\"\"''
   \<and> handleIncomingCall_locals [''RING'', ''+CLIP: \"+27821234567\",145,,,\"\"'']
        ((init_GsmModem [])\<lparr>callingLineIdentification := True\<rparr>)
      = Inr \<lparr>callType_var = None, callerNumber_var = None, ton_var = Bound None,
             callerName_var = None\<rparr>
   \<and> re_match CLIP_REGEX ''+CLIP: \"+27821234567\",145,,,\"\"'' = None
   \<and> callerName_var \<lparr>callType_var = None, callerNumber_var = None, ton_var = Bound None,
             callerName_var = None\<rparr> = None"
  using caller_id_name_absent [of "[''RING'', ''+CLIP: \"+27821234567\",145,,,\"\"'']"
      "(init_GsmModem [])\<lparr>callingLineIdentification := True\<rparr>"
      "\<lparr>callType_var = None, callerNumber_var = None, ton_var = Bound None,
        callerName_var = None\<rparr>"
      "''+CLIP: \"+27821234567\",145,,,\"\"''" "''RING''" "[]"]
  by (simp add: handleIncomingCall_locals_def init_GsmModem_def CLIP_REGEX_def regex_defs
        suffix_def)

end
